theory Spec2Isabelle
  imports Main
begin

section \<open>Strings\<close>

text \<open>
  Python strings are modelled as \<open>string\<close>, one \<open>char\<close> per code point, so the
  model covers the strings whose code points are below 256 (ASCII and Latin-1). On that
  range \<open>str.isspace\<close>, \<open>str.lower\<close>, \<open>\d\<close> and case-insensitive matching are as
  defined below.
\<close>

definition py_isspace :: "char \<Rightarrow> bool" where
  "py_isspace c = ((of_char c :: nat) \<in> set [9, 10, 11, 12, 13, 28, 29, 30, 31, 32, 133, 160])"

definition py_lower_char :: "char \<Rightarrow> char" where
  "py_lower_char c =
     (let n = (of_char c :: nat)
      in if (65 \<le> n \<and> n \<le> 90) \<or> (192 \<le> n \<and> n \<le> 214) \<or> (216 \<le> n \<and> n \<le> 222)
         then char_of (n + 32) else c)"

definition py_lower :: "string \<Rightarrow> string" where
  "py_lower s = map py_lower_char s"

definition py_strip :: "string \<Rightarrow> string" where
  "py_strip s = rev (dropWhile py_isspace (rev (dropWhile py_isspace s)))"

text \<open>\<open>s.replace(old, new)\<close> for a non-empty \<open>old\<close>: left to right, without overlaps.\<close>

fun py_replace :: "string \<Rightarrow> string \<Rightarrow> string \<Rightarrow> string" where
  "py_replace old new [] = []"
| "py_replace old new (c # s) =
     (if old \<noteq> [] \<and> take (length old) (c # s) = old
      then new @ py_replace old new (drop (length old) (c # s))
      else c # py_replace old new s)"

text \<open>Truth value of an optional string: \<open>None\<close> and \<open>""\<close> are false.\<close>

definition truthy :: "string option \<Rightarrow> bool" where
  "truthy v = (case v of None \<Rightarrow> False | Some s \<Rightarrow> s \<noteq> [])"

section \<open>Regular expressions\<close>

text \<open>
  The fragment of \<open>re\<close> that \<open>DOI_PATTERN\<close> uses. \<open>re_steps r ic s\<close> lists the rests of
  \<open>s\<close> after every way of matching \<open>r\<close> at its start (\<open>ic\<close> is \<open>re.IGNORECASE\<close>);
  \<open>pattern.match(s)\<close> succeeds when some way exists. \<open>match\<close> anchors at the start,
  so the leading \<open>^\<close> has no constructor. \<open>$\<close> matches at the end and before a final
  newline.
\<close>

datatype regex =
    RChar char
  | RSet "char list"
  | RDigit
  | RSeq regex regex
  | RRepeat regex nat nat
  | RPlus regex
  | REnd

primrec iter :: "(string \<Rightarrow> string list) \<Rightarrow> nat \<Rightarrow> string \<Rightarrow> string list" where
  "iter f 0 s = [s]"
| "iter f (Suc k) s = concat (map (iter f k) (f s))"

definition chr_eq :: "bool \<Rightarrow> char \<Rightarrow> char \<Rightarrow> bool" where
  "chr_eq ignorecase p c = (if ignorecase then py_lower_char c = py_lower_char p else c = p)"

definition is_decimal :: "char \<Rightarrow> bool" where
  "is_decimal c = (48 \<le> (of_char c :: nat) \<and> (of_char c :: nat) \<le> 57)"

definition one_char :: "(char \<Rightarrow> bool) \<Rightarrow> string \<Rightarrow> string list" where
  "one_char p s = (case s of [] \<Rightarrow> [] | c # t \<Rightarrow> if p c then [t] else [])"

primrec re_steps :: "regex \<Rightarrow> bool \<Rightarrow> string \<Rightarrow> string list" where
  "re_steps (RChar p) ic s = one_char (chr_eq ic p) s"
| "re_steps (RSet ps) ic s = one_char (\<lambda>c. list_ex (\<lambda>p. chr_eq ic p c) ps) s"
| "re_steps RDigit ic s = one_char is_decimal s"
| "re_steps (RSeq a b) ic s = concat (map (re_steps b ic) (re_steps a ic s))"
| "re_steps (RRepeat r m n) ic s = concat (map (\<lambda>k. iter (re_steps r ic) k s) [m..<Suc n])"
| "re_steps (RPlus r) ic s = concat (map (\<lambda>k. iter (re_steps r ic) k s) [1..<Suc (length s)])"
| "re_steps REnd ic s = (if s = [] \<or> s = [CHR 0x0A] then [s] else [])"

definition re_match :: "regex \<Rightarrow> bool \<Rightarrow> string \<Rightarrow> bool" where
  "re_match r ic s = (re_steps r ic s \<noteq> [])"

section \<open>Configuration\<close>

text \<open>\<open>re.compile(r'^10\.\d{4,9}/[-._;()/:A-Z0-9]+$', re.IGNORECASE)\<close>\<close>

definition DOI_PATTERN :: regex where
  "DOI_PATTERN =
     RSeq (RChar CHR ''1'') (RSeq (RChar CHR ''0'') (RSeq (RChar CHR ''.'')
       (RSeq (RRepeat RDigit 4 9) (RSeq (RChar CHR ''/'')
         (RSeq (RPlus (RSet (''-._;()/:'' @ ''ABCDEFGHIJKLMNOPQRSTUVWXYZ'' @ ''0123456789'')))
            REnd)))))"

definition MIN_TITLE_LENGTH :: nat where
  "MIN_TITLE_LENGTH = 10"

definition DELAY_BETWEEN_REQUESTS :: nat where
  "DELAY_BETWEEN_REQUESTS = 1"

section \<open>Validation\<close>

definition validate_doi :: "string \<Rightarrow> bool \<times> string" where
  "validate_doi doi0 =
     (let doi = py_strip doi0
      in if doi = [] then (False, ''Empty DOI'')
         else if \<not> re_match DOI_PATTERN True doi then (False, ''Invalid DOI format: '' @ doi)
         else (True, ''''))"

definition validate_title :: "string \<Rightarrow> bool \<times> string" where
  "validate_title title0 =
     (let title = py_strip title0
      in if title = [] then (False, ''Empty title'')
         else if length title < MIN_TITLE_LENGTH
           then (False, ''Title too short (min 10 chars): '' @ take 50 title)
         else (True, ''''))"

text \<open>
  The loop of \<open>detect_duplicates\<close>: \<open>i\<close> is the 0-based index of the item at the head,
  the state is \<open>(seen, unique, duplicates)\<close>.
\<close>

fun detect_loop ::
  "nat \<Rightarrow> string list \<Rightarrow> (string \<rightharpoonup> nat) \<times> string list \<times> (nat \<times> string \<times> nat) list
     \<Rightarrow> (string \<rightharpoonup> nat) \<times> string list \<times> (nat \<times> string \<times> nat) list" where
  "detect_loop i [] st = st"
| "detect_loop i (item # items) (seen, uniq, dups) =
     (let normalized = py_strip (py_lower item)
      in case seen normalized of
           Some first \<Rightarrow> detect_loop (i + 1) items (seen, uniq, dups @ [(i + 1, item, first + 1)])
         | None \<Rightarrow> detect_loop (i + 1) items (seen(normalized \<mapsto> i), uniq @ [item], dups))"

definition detect_duplicates :: "string list \<Rightarrow> string list \<times> (nat \<times> string \<times> nat) list" where
  "detect_duplicates items =
     (case detect_loop 0 items (Map.empty, [], []) of (seen, uniq, dups) \<Rightarrow> (uniq, dups))"

record report =
  total :: nat
  valid :: nat
  invalid :: nat
  invalid_items :: "(nat \<times> string \<times> string) list"
  unique :: nat
  duplicates :: nat
  duplicate_items :: "(nat \<times> string \<times> nat) list"
  unique_items :: "string list"

fun validate_loop ::
  "(string \<Rightarrow> bool \<times> string) \<Rightarrow> nat \<Rightarrow> string list
     \<Rightarrow> string list \<times> (nat \<times> string \<times> string) list
     \<Rightarrow> string list \<times> (nat \<times> string \<times> string) list" where
  "validate_loop validate_fn i [] st = st"
| "validate_loop validate_fn i (item # items) (valid_items, bad_items) =
     (case validate_fn item of
        (is_valid, error_msg) \<Rightarrow>
          if is_valid then validate_loop validate_fn (i + 1) items (valid_items @ [item], bad_items)
          else validate_loop validate_fn (i + 1) items
                 (valid_items, bad_items @ [(i + 1, item, error_msg)]))"

definition validate_batch :: "string list \<Rightarrow> string \<Rightarrow> report" where
  "validate_batch items search_mode =
     (let validate_fn = (if search_mode = ''doi'' then validate_doi else validate_title)
      in case validate_loop validate_fn 0 items ([], []) of
           (valid_items, bad_items) \<Rightarrow>
             (case detect_duplicates valid_items of
                (uniq, dups) \<Rightarrow>
                  \<lparr> total = length items,
                    valid = length valid_items,
                    invalid = length bad_items,
                    invalid_items = bad_items,
                    unique = length uniq,
                    duplicates = length dups,
                    duplicate_items = dups,
                    unique_items = uniq \<rparr>))"

section \<open>The cache\<close>

record cache_entry =
  ce_title :: "string option"
  ce_scopus_id :: "string option"
  ce_doi :: "string option"
  ce_source :: string
  cached_at :: string

text \<open>
  A \<open>ResultCache\<close> object: the dictionary in memory, and the content of the file at
  \<open>cache_file\<close> (\<open>None\<close>: no file, or one that does not load). Writing the file is
  taken to succeed; the lock is not modelled.
\<close>

record ResultCache =
  cache :: "string \<rightharpoonup> cache_entry"
  cache_file :: "(string \<rightharpoonup> cache_entry) option"

definition ResultCache_load_cache :: "(string \<rightharpoonup> cache_entry) option \<Rightarrow> (string \<rightharpoonup> cache_entry)" where
  "ResultCache_load_cache content = (case content of Some m \<Rightarrow> m | None \<Rightarrow> Map.empty)"

definition ResultCache_init :: "(string \<rightharpoonup> cache_entry) option \<Rightarrow> ResultCache" where
  "ResultCache_init content = \<lparr> cache = ResultCache_load_cache content, cache_file = content \<rparr>"

definition ResultCache_save_cache :: "ResultCache \<Rightarrow> ResultCache" where
  "ResultCache_save_cache rc = rc\<lparr> cache_file := Some (cache rc) \<rparr>"

definition ResultCache_get :: "ResultCache \<Rightarrow> string \<Rightarrow> cache_entry option" where
  "ResultCache_get rc key = (let normalized_key = py_strip (py_lower key) in cache rc normalized_key)"

text \<open>\<open>now\<close> is the value of \<open>datetime.now().isoformat()\<close> at the call.\<close>

definition ResultCache_set :: "string \<Rightarrow> ResultCache \<Rightarrow> string \<Rightarrow> cache_entry \<Rightarrow> ResultCache" where
  "ResultCache_set now rc key val =
     (let normalized_key = py_strip (py_lower key);
          val' = val\<lparr> cached_at := now \<rparr>
      in ResultCache_save_cache (rc\<lparr> cache := (cache rc)(normalized_key \<mapsto> val') \<rparr>))"

definition ResultCache_clear :: "ResultCache \<Rightarrow> ResultCache" where
  "ResultCache_clear rc = ResultCache_save_cache (rc\<lparr> cache := Map.empty \<rparr>)"

section \<open>The remote services and the global counters\<close>

text \<open>
  What \<open>requests.get\<close> gives: a \<open>requests.RequestException\<close>, or a response with its
  status code and its decoded JSON body. The bodies have the shape the two services
  document: for Scopus the list under \<open>search-results/entry\<close>, for an OpenAlex work its
  \<open>title\<close>, for an OpenAlex search the list under \<open>results\<close>. A missing or null field
  is \<open>None\<close>, a missing list is \<open>[]\<close>. The services answer each request the same way
  whenever it is sent.
\<close>

datatype 'a http = RequestException | Response nat 'a

record scopus_entry =
  dc_title :: "string option"
  eid :: "string option"
  prism_doi :: "string option"

record openalex_work =
  oa_title :: "string option"
  oa_ids :: "(string \<times> string) list"

record services =
  scopus_get :: "string \<Rightarrow> string \<Rightarrow> nat option \<Rightarrow> scopus_entry list http"
  openalex_work_get :: "string \<Rightarrow> string option http"
  openalex_search_get :: "string \<Rightarrow> nat \<Rightarrow> openalex_work list http"

text \<open>
  The module's global variables, and \<open>slept\<close>: the time spent in \<open>time.sleep\<close> so far.
  Logging and printing are not modelled.
\<close>

record globals =
  interrupt_flag :: bool
  requests_made :: nat
  errors_count :: nat
  cache_hits :: nat
  slept :: nat

datatype interrupt = KeyboardInterrupt

section \<open>API functions\<close>

definition search_scopus_api ::
  "services \<Rightarrow> string \<Rightarrow> string \<Rightarrow> globals
     \<Rightarrow> (interrupt + string option \<times> string option) \<times> globals" where
  "search_scopus_api svc doi api_key g =
     (if interrupt_flag g then (Inl KeyboardInterrupt, g)
      else
        let g1 = g\<lparr> requests_made := requests_made g + 1 \<rparr>
        in case scopus_get svc (''DOI('' @ doi @ '')'') api_key None of
             RequestException \<Rightarrow> (Inr (None, None), g1\<lparr> errors_count := errors_count g1 + 1 \<rparr>)
           | Response status_code entries \<Rightarrow>
               if status_code = 200 then
                 (case entries of
                    entry # _ \<Rightarrow> (Inr (dc_title entry, eid entry), g1)
                  | [] \<Rightarrow> (Inr (None, None), g1\<lparr> errors_count := errors_count g1 + 1 \<rparr>))
               else if status_code = 401 then
                 (Inr (None, None), g1\<lparr> errors_count := errors_count g1 + 1 \<rparr>)
               else if status_code = 429 then
                 (let g2 = g1\<lparr> slept := slept g1 + 5 \<rparr>
                  in (Inr (None, None), g2\<lparr> errors_count := errors_count g2 + 1 \<rparr>))
               else (Inr (None, None), g1\<lparr> errors_count := errors_count g1 + 1 \<rparr>))"

definition search_openalex_doi ::
  "services \<Rightarrow> string \<Rightarrow> globals \<Rightarrow> (interrupt + string option) \<times> globals" where
  "search_openalex_doi svc doi g =
     (if interrupt_flag g then (Inl KeyboardInterrupt, g)
      else
        let g1 = g\<lparr> requests_made := requests_made g + 1 \<rparr>
        in case openalex_work_get svc (''https://api.openalex.org/works/https://doi.org/'' @ doi) of
             RequestException \<Rightarrow> (Inr None, g1\<lparr> errors_count := errors_count g1 + 1 \<rparr>)
           | Response status_code title \<Rightarrow>
               if status_code = 200 then (Inr title, g1)
               else (Inr None, g1\<lparr> errors_count := errors_count g1 + 1 \<rparr>))"

definition search_scopus_api_title ::
  "services \<Rightarrow> string \<Rightarrow> string \<Rightarrow> globals
     \<Rightarrow> (interrupt + string option \<times> string option \<times> string option) \<times> globals" where
  "search_scopus_api_title svc title api_key g =
     (if interrupt_flag g then (Inl KeyboardInterrupt, g)
      else
        let g1 = g\<lparr> requests_made := requests_made g + 1 \<rparr>
        in case scopus_get svc (''TITLE('' @ title @ '')'') api_key (Some 1) of
             RequestException \<Rightarrow>
               (Inr (None, None, None), g1\<lparr> errors_count := errors_count g1 + 1 \<rparr>)
           | Response status_code entries \<Rightarrow>
               if status_code = 200 then
                 (case entries of
                    entry # _ \<Rightarrow> (Inr (dc_title entry, eid entry, prism_doi entry), g1)
                  | [] \<Rightarrow> (Inr (None, None, None), g1\<lparr> errors_count := errors_count g1 + 1 \<rparr>))
               else if status_code = 401 then
                 (Inr (None, None, None), g1\<lparr> errors_count := errors_count g1 + 1 \<rparr>)
               else if status_code = 429 then
                 (let g2 = g1\<lparr> slept := slept g1 + 5 \<rparr>
                  in (Inr (None, None, None), g2\<lparr> errors_count := errors_count g2 + 1 \<rparr>))
               else (Inr (None, None, None), g1\<lparr> errors_count := errors_count g1 + 1 \<rparr>))"

definition search_openalex_title ::
  "services \<Rightarrow> string \<Rightarrow> globals
     \<Rightarrow> (interrupt + string option \<times> string option) \<times> globals" where
  "search_openalex_title svc title g =
     (if interrupt_flag g then (Inl KeyboardInterrupt, g)
      else
        let g1 = g\<lparr> requests_made := requests_made g + 1 \<rparr>
        in case openalex_search_get svc title 1 of
             RequestException \<Rightarrow> (Inr (None, None), g1\<lparr> errors_count := errors_count g1 + 1 \<rparr>)
           | Response status_code works \<Rightarrow>
               if status_code = 200 then
                 (case works of
                    work # _ \<Rightarrow>
                      (let title_found = oa_title work;
                           doi = (case map_of (oa_ids work) ''doi'' of
                                    Some d \<Rightarrow> Some (py_replace ''https://doi.org/'' '''' d)
                                  | None \<Rightarrow> None)
                       in (Inr (title_found, doi), g1))
                  | [] \<Rightarrow> (Inr (None, None), g1\<lparr> errors_count := errors_count g1 + 1 \<rparr>))
               else (Inr (None, None), g1\<lparr> errors_count := errors_count g1 + 1 \<rparr>))"

section \<open>Processing functions\<close>

record doi_result =
  dr_doi :: string
  dr_title :: "string option"
  dr_scopus_id :: "string option"
  dr_cached :: bool

record title_result =
  tr_search_title :: string
  tr_found_title :: "string option"
  tr_scopus_id :: "string option"
  tr_doi :: "string option"
  tr_cached :: bool

definition process_doi_item ::
  "services \<Rightarrow> string \<Rightarrow> string \<Rightarrow> string \<Rightarrow> ResultCache \<Rightarrow> bool \<Rightarrow> globals
     \<Rightarrow> (interrupt + doi_result) \<times> ResultCache \<times> globals" where
  "process_doi_item svc now item api_key rc use_cache g =
     (let cached_result = (if use_cache then ResultCache_get rc item else None)
      in case cached_result of
           Some hit \<Rightarrow>
             (Inr \<lparr> dr_doi = item, dr_title = ce_title hit, dr_scopus_id = ce_scopus_id hit,
                    dr_cached = True \<rparr>,
              rc, g\<lparr> cache_hits := cache_hits g + 1 \<rparr>)
         | None \<Rightarrow>
             (case search_scopus_api svc item api_key g of
                (Inl e, g1) \<Rightarrow> (Inl e, rc, g1)
              | (Inr (title, scopus_id), g1) \<Rightarrow>
                  (case (if \<not> truthy scopus_id then search_openalex_doi svc item g1
                         else (Inr title, g1)) of
                     (Inl e, g2) \<Rightarrow> (Inl e, rc, g2)
                   | (Inr title', g2) \<Rightarrow>
                       (let result = \<lparr> dr_doi = item, dr_title = title', dr_scopus_id = scopus_id,
                                       dr_cached = False \<rparr>;
                            rc' = (if truthy scopus_id \<and> use_cache
                                   then ResultCache_set now rc item
                                          \<lparr> ce_title = title', ce_scopus_id = scopus_id,
                                            ce_doi = None, ce_source = ''scopus'',
                                            cached_at = '''' \<rparr>
                                   else rc)
                        in (Inr result, rc',
                            g2\<lparr> slept := slept g2 + DELAY_BETWEEN_REQUESTS \<rparr>)))))"

definition process_title_item ::
  "services \<Rightarrow> string \<Rightarrow> string \<Rightarrow> string \<Rightarrow> ResultCache \<Rightarrow> bool \<Rightarrow> globals
     \<Rightarrow> (interrupt + title_result) \<times> ResultCache \<times> globals" where
  "process_title_item svc now item api_key rc use_cache g =
     (let cached_result = (if use_cache then ResultCache_get rc item else None)
      in case cached_result of
           Some hit \<Rightarrow>
             (Inr \<lparr> tr_search_title = item, tr_found_title = ce_title hit,
                    tr_scopus_id = ce_scopus_id hit, tr_doi = ce_doi hit, tr_cached = True \<rparr>,
              rc, g\<lparr> cache_hits := cache_hits g + 1 \<rparr>)
         | None \<Rightarrow>
             (case search_scopus_api_title svc item api_key g of
                (Inl e, g1) \<Rightarrow> (Inl e, rc, g1)
              | (Inr (title_found, scopus_id, doi), g1) \<Rightarrow>
                  (case (if \<not> truthy scopus_id then search_openalex_title svc item g1
                         else (Inr (title_found, doi), g1)) of
                     (Inl e, g2) \<Rightarrow> (Inl e, rc, g2)
                   | (Inr (title_found', doi'), g2) \<Rightarrow>
                       (let result = \<lparr> tr_search_title = item, tr_found_title = title_found',
                                       tr_scopus_id = scopus_id, tr_doi = doi',
                                       tr_cached = False \<rparr>;
                            rc' = (if truthy scopus_id \<and> use_cache
                                   then ResultCache_set now rc item
                                          \<lparr> ce_title = title_found', ce_scopus_id = scopus_id,
                                            ce_doi = doi', ce_source = ''scopus'',
                                            cached_at = '''' \<rparr>
                                   else rc)
                        in (Inr result, rc',
                            g2\<lparr> slept := slept g2 + DELAY_BETWEEN_REQUESTS \<rparr>)))))"

text \<open>A row of the result list: the dictionary \<open>main\<close> appends, by search mode.\<close>

datatype result_row =
    DoiRow string "string option" "string option"
  | TitleRow string "string option" "string option" "string option"

fun row_scopus_id :: "result_row \<Rightarrow> string option" where
  "row_scopus_id (DoiRow d t s) = s"
| "row_scopus_id (TitleRow q t s d) = s"

record metadata =
  search_mode :: string
  total_items :: nat
  last_processed_index :: nat
  timestamp :: string

record checkpoint =
  metadata :: metadata
  results :: "result_row list"

text \<open>
  The files the run reads and writes, by content (\<open>None\<close>: absent). Writing a file is
  taken to succeed.
\<close>

record files =
  cache_json :: "(string \<rightharpoonup> cache_entry) option"
  checkpoint_json :: "checkpoint option"
  results_csv :: "result_row list option"
  validation_txt :: "(string \<times> report) option"

definition load_checkpoint :: "files \<Rightarrow> checkpoint option" where
  "load_checkpoint fs = checkpoint_json fs"

definition save_checkpoint :: "metadata \<Rightarrow> result_row list \<Rightarrow> files \<Rightarrow> files" where
  "save_checkpoint md rs fs = fs\<lparr> checkpoint_json := Some \<lparr> metadata = md, results = rs \<rparr> \<rparr>"

definition save_validation_report :: "report \<Rightarrow> string \<Rightarrow> files \<Rightarrow> files" where
  "save_validation_report rep mode fs = fs\<lparr> validation_txt := Some (mode, rep) \<rparr>"

text \<open>The figures of the summary that \<open>save_final_results\<close> prints.\<close>

record summary =
  sm_total :: nat
  sm_found :: nat
  sm_not_found :: nat
  sm_api_requests :: nat
  sm_cache_hits :: nat
  sm_errors :: nat

datatype main_error = KeyError

text \<open>
  \<open>save_final_results\<close> writes the table, then selects the column \<open>scopus_id\<close>; a table
  of no rows has no such column, and the selection raises \<open>KeyError\<close>, which the
  handler for \<open>IOError\<close> does not catch.
\<close>

definition save_final_results ::
  "result_row list \<Rightarrow> string \<Rightarrow> files \<Rightarrow> globals \<Rightarrow> (main_error + summary) \<times> files" where
  "save_final_results rs mode fs g =
     (let fs' = fs\<lparr> results_csv := Some rs \<rparr>
      in if rs = [] then (Inl KeyError, fs')
         else (Inr \<lparr> sm_total = length rs,
                     sm_found = length (filter (\<lambda>r. row_scopus_id r \<noteq> None) rs),
                     sm_not_found = length (filter (\<lambda>r. row_scopus_id r = None) rs),
                     sm_api_requests = requests_made g,
                     sm_cache_hits = cache_hits g,
                     sm_errors = errors_count g \<rparr>, fs'))"

section \<open>Main\<close>

record args =
  arg_doi :: bool
  arg_title :: bool
  arg_limit :: "int option"
  arg_resume :: bool
  arg_skip_duplicates :: bool
  arg_no_cache :: bool
  arg_dry_run :: bool

text \<open>\<open>xs[a:b]\<close> for \<open>a \<ge> 0\<close>: a negative \<open>b\<close> counts from the end.\<close>

definition py_slice :: "'a list \<Rightarrow> nat \<Rightarrow> int \<Rightarrow> 'a list" where
  "py_slice xs a b =
     (let n = int (length xs);
          stop = (if b < 0 then max 0 (n + b) else min b n)
      in take (nat stop - a) (drop a xs))"

text \<open>
  The conditional on \<open>args.skip_duplicates\<close>: the list of items \<open>main\<close> goes on with.
\<close>

definition select_items :: "bool \<Rightarrow> report \<Rightarrow> string list" where
  "select_items skip_dups validation_report =
     (if skip_dups \<and> duplicates validation_report > 0
      then unique_items validation_report
      else unique_items validation_report)"

text \<open>
  What the loop of \<open>main\<close> does not change: the services, the clock (the timestamp
  while the item with a given absolute index is handled), the search mode, the API key,
  \<open>not args.no_cache\<close>, \<open>original_count\<close> and \<open>start_index\<close>.
\<close>

record run_env =
  env_services :: services
  env_clock :: "nat \<Rightarrow> string"
  env_search_mode :: string
  env_api_key :: string
  env_use_cache :: bool
  env_original_count :: nat
  env_start_index :: nat

record loop_state =
  ls_results :: "result_row list"
  ls_cache :: ResultCache
  ls_files :: files
  ls_globals :: globals

text \<open>
  The loop \<open>for i, item in enumerate(items, 1)\<close>, up to its end or to the
  \<open>KeyboardInterrupt\<close> that the handler around it catches; both go on to the
  \<open>finally\<close> block with the state returned here.
\<close>

fun process_loop :: "run_env \<Rightarrow> nat \<Rightarrow> string list \<Rightarrow> loop_state \<Rightarrow> loop_state" where
  "process_loop env i [] st = st"
| "process_loop env i (item # items) st =
     (if interrupt_flag (ls_globals st) then st
      else
        let absolute_index = env_start_index env + i;
            now = env_clock env absolute_index;
            (outcome, rc', g') =
              (if env_search_mode env = ''doi''
               then (case process_doi_item (env_services env) now item (env_api_key env)
                             (ls_cache st) (env_use_cache env) (ls_globals st) of
                       (Inl e, rc1, g1) \<Rightarrow> (Inl e, rc1, g1)
                     | (Inr r, rc1, g1) \<Rightarrow>
                         (Inr (DoiRow (dr_doi r) (dr_title r) (dr_scopus_id r)), rc1, g1))
               else (case process_title_item (env_services env) now item (env_api_key env)
                             (ls_cache st) (env_use_cache env) (ls_globals st) of
                       (Inl e, rc1, g1) \<Rightarrow> (Inl e, rc1, g1)
                     | (Inr r, rc1, g1) \<Rightarrow>
                         (Inr (TitleRow (tr_search_title r) (tr_found_title r) (tr_scopus_id r)
                                 (tr_doi r)), rc1, g1)))
        in case outcome of
             Inl KeyboardInterrupt \<Rightarrow> st\<lparr> ls_cache := rc', ls_globals := g' \<rparr>
           | Inr row \<Rightarrow>
               (let rs = ls_results st @ [row];
                    fs = (if i mod 10 = 0
                          then save_checkpoint
                                 \<lparr> search_mode = env_search_mode env,
                                   total_items = env_original_count env,
                                   last_processed_index = absolute_index,
                                   timestamp = now \<rparr> rs (ls_files st)
                          else ls_files st)
                in process_loop env (i + 1) items
                     \<lparr> ls_results = rs, ls_cache = rc', ls_files = fs, ls_globals = g' \<rparr>))"

record main_result =
  mr_error :: "main_error option"
  mr_summary :: "summary option"
  mr_files :: files
  mr_globals :: globals

text \<open>
  \<open>main\<close> from the point where the API key is there and no maintenance action was
  asked for: \<open>lines\<close> is what \<open>load_items_from_file\<close> returned, \<open>fs\<close> the files and
  \<open>g\<close> the globals at that point.
\<close>

definition main ::
  "services \<Rightarrow> (nat \<Rightarrow> string) \<Rightarrow> args \<Rightarrow> string \<Rightarrow> string list \<Rightarrow> files \<Rightarrow> globals
     \<Rightarrow> main_result" where
  "main svc clock a api_key lines fs g =
     (let rc = ResultCache_init (cache_json fs)
      in if \<not> arg_doi a \<and> \<not> arg_title a
         then \<lparr> mr_error = None, mr_summary = None, mr_files = fs, mr_globals = g \<rparr>
         else
           let mode = (if arg_title a then ''title'' else ''doi'');
               original_count = length lines;
               validation_report = validate_batch lines mode;
               fs1 = (if invalid validation_report > 0 \<or> duplicates validation_report > 0
                      then save_validation_report validation_report mode fs else fs);
               items = select_items (arg_skip_duplicates a) validation_report
           in if arg_dry_run a
              then \<lparr> mr_error = None, mr_summary = None, mr_files = fs1, mr_globals = g \<rparr>
              else
                let (start_index, existing_results) =
                      (if arg_resume a
                       then (case load_checkpoint fs1 of
                               Some ck \<Rightarrow> (last_processed_index (metadata ck), results ck)
                             | None \<Rightarrow> (0, []))
                       else (0, []));
                    items' = (case arg_limit a of
                                None \<Rightarrow> drop start_index items
                              | Some l \<Rightarrow>
                                  if l \<noteq> 0 then py_slice items start_index (int start_index + l)
                                  else drop start_index items)
                in if items' = []
                   then (if existing_results \<noteq> []
                         then (case save_final_results existing_results mode fs1 g of
                                 (Inl e, fs2) \<Rightarrow>
                                   \<lparr> mr_error = Some e, mr_summary = None, mr_files = fs2,
                                     mr_globals = g \<rparr>
                               | (Inr s, fs2) \<Rightarrow>
                                   \<lparr> mr_error = None, mr_summary = Some s, mr_files = fs2,
                                     mr_globals = g \<rparr>)
                         else \<lparr> mr_error = None, mr_summary = None, mr_files = fs1,
                                mr_globals = g \<rparr>)
                   else
                     let env = \<lparr> env_services = svc, env_clock = clock, env_search_mode = mode,
                                 env_api_key = api_key, env_use_cache = (\<not> arg_no_cache a),
                                 env_original_count = original_count,
                                 env_start_index = start_index \<rparr>;
                         st = process_loop env 1 items'
                                \<lparr> ls_results = existing_results, ls_cache = rc, ls_files = fs1,
                                  ls_globals = g \<rparr>;
                         fs2 = (ls_files st)\<lparr> cache_json := cache_file (ls_cache st) \<rparr>
                     in case save_final_results (ls_results st) mode fs2 (ls_globals st) of
                          (Inl e, fs3) \<Rightarrow>
                            \<lparr> mr_error = Some e, mr_summary = None, mr_files = fs3,
                              mr_globals = ls_globals st \<rparr>
                        | (Inr s, fs3) \<Rightarrow>
                            \<lparr> mr_error = None, mr_summary = Some s, mr_files = fs3,
                              mr_globals = ls_globals st \<rparr>)"

section \<open>The specification's notions\<close>

text \<open>
  The definitions of this section follow the wording of the specification, to be
  compared with the definitions above, which follow the code.
\<close>

text \<open>The normalized form of an item: lower-cased, then trimmed.\<close>

definition normalize :: "string \<Rightarrow> string" where
  "normalize s = py_strip (py_lower s)"

text \<open>The DOI grammar \<open>10.<4-9 digits>/<allowed-charset>\<close>, letters in either case.\<close>

definition doi_digit :: "char \<Rightarrow> bool" where
  "doi_digit c = (c \<in> set ''0123456789'')"

definition doi_charset :: "char \<Rightarrow> bool" where
  "doi_charset c =
     (c \<in> set ''-._;()/:'' \<or> c \<in> set ''ABCDEFGHIJKLMNOPQRSTUVWXYZ''
      \<or> c \<in> set ''abcdefghijklmnopqrstuvwxyz'' \<or> c \<in> set ''0123456789'')"

definition doi_grammar :: "string \<Rightarrow> bool" where
  "doi_grammar s =
     (\<exists>ds rest. s = ''10.'' @ ds @ ''/'' @ rest
        \<and> 4 \<le> length ds \<and> length ds \<le> 9 \<and> list_all doi_digit ds
        \<and> rest \<noteq> [] \<and> list_all doi_charset rest)"

text \<open>
  Duplicate detection by positions: the 0-based position of the first item with a given
  normalized key; the items that stand at the first position of their key, in order;
  and for every other item its 1-based position, the item and the 1-based first
  position of its key.
\<close>

definition first_occurrence :: "string list \<Rightarrow> string \<Rightarrow> nat" where
  "first_occurrence items key = length (takeWhile (\<lambda>x. normalize x \<noteq> key) items)"

definition is_first :: "string list \<Rightarrow> nat \<Rightarrow> bool" where
  "is_first items i = (first_occurrence items (normalize (items ! i)) = i)"

definition unique_spec :: "string list \<Rightarrow> string list" where
  "unique_spec items = map (\<lambda>i. items ! i) (filter (is_first items) [0..<length items])"

definition duplicates_spec :: "string list \<Rightarrow> (nat \<times> string \<times> nat) list" where
  "duplicates_spec items =
     map (\<lambda>i. (i + 1, items ! i, first_occurrence items (normalize (items ! i)) + 1))
       (filter (\<lambda>i. \<not> is_first items i) [0..<length items])"

text \<open>The dictionary \<open>seen\<close> of \<open>detect_duplicates\<close> once the items \<open>pre\<close> are read.\<close>

definition seen_spec :: "string list \<Rightarrow> (string \<rightharpoonup> nat)" where
  "seen_spec pre =
     (\<lambda>key. if key \<in> normalize ` set pre then Some (first_occurrence pre key) else None)"

section \<open>Sample environments\<close>

text \<open>The globals as the module initialises them.\<close>

definition fresh_globals :: globals where
  "fresh_globals =
     \<lparr> interrupt_flag = False, requests_made = 0, errors_count = 0, cache_hits = 0, slept = 0 \<rparr>"

text \<open>Services that answer every request with the same status and an empty body.\<close>

definition services_status :: "nat \<Rightarrow> services" where
  "services_status st =
     \<lparr> scopus_get = (\<lambda>query api_key count. Response st []),
       openalex_work_get = (\<lambda>url. Response st None),
       openalex_search_get = (\<lambda>search per_page. Response st []) \<rparr>"

text \<open>Services that cannot be reached.\<close>

definition services_down :: services where
  "services_down =
     \<lparr> scopus_get = (\<lambda>query api_key count. RequestException),
       openalex_work_get = (\<lambda>url. RequestException),
       openalex_search_get = (\<lambda>search per_page. RequestException) \<rparr>"




definition no_files :: files where
  "no_files =
     \<lparr> cache_json = None, checkpoint_json = None, results_csv = None, validation_txt = None \<rparr>"

text \<open>
  The arguments of a plain run, by DOI or by title: no limit, no resume, duplicates not
  skipped, cache enabled, no dry run.
\<close>

definition run_args :: "bool \<Rightarrow> args" where
  "run_args by_title =
     \<lparr> arg_doi = (\<not> by_title), arg_title = by_title, arg_limit = None, arg_resume = False,
       arg_skip_duplicates = False, arg_no_cache = False, arg_dry_run = False \<rparr>"

section \<open>Notions for the proofs\<close>

text \<open>The identifier a row was looked up by.\<close>

fun row_key :: "result_row \<Rightarrow> string" where
  "row_key (DoiRow d t s) = d"
| "row_key (TitleRow q t s d) = q"

text \<open>
  One pass of the loop of \<open>main\<close> up to the row it appends: the call of
  \<open>process_doi_item\<close> or \<open>process_title_item\<close> and the row built from its result.
\<close>

definition process_item ::
  "run_env \<Rightarrow> nat \<Rightarrow> string \<Rightarrow> ResultCache \<Rightarrow> globals
     \<Rightarrow> (interrupt + result_row) \<times> ResultCache \<times> globals" where
  "process_item env absolute_index item rc g =
     (if env_search_mode env = ''doi''
      then (case process_doi_item (env_services env) (env_clock env absolute_index) item
                   (env_api_key env) rc (env_use_cache env) g of
              (Inl e, rc1, g1) \<Rightarrow> (Inl e, rc1, g1)
            | (Inr r, rc1, g1) \<Rightarrow>
                (Inr (DoiRow (dr_doi r) (dr_title r) (dr_scopus_id r)), rc1, g1))
      else (case process_title_item (env_services env) (env_clock env absolute_index) item
                   (env_api_key env) rc (env_use_cache env) g of
              (Inl e, rc1, g1) \<Rightarrow> (Inl e, rc1, g1)
            | (Inr r, rc1, g1) \<Rightarrow>
                (Inr (TitleRow (tr_search_title r) (tr_found_title r) (tr_scopus_id r)
                        (tr_doi r)), rc1, g1)))"

text \<open>Two caches that hold the same entries up to the time of writing.\<close>

definition same_entry :: "cache_entry \<Rightarrow> cache_entry \<Rightarrow> bool" where
  "same_entry x y =
     (ce_title x = ce_title y \<and> ce_scopus_id x = ce_scopus_id y \<and> ce_doi x = ce_doi y
      \<and> ce_source x = ce_source y)"

definition cache_sim :: "ResultCache \<Rightarrow> ResultCache \<Rightarrow> bool" where
  "cache_sim a b = (\<forall>k. rel_option same_entry (cache a k) (cache b k))"

section \<open>Properties\<close>

lemma set_one_char: "set (one_char p s) = {t. \<exists>c. s = c # t \<and> p c}"
  by (auto simp: one_char_def split: list.splits)

lemma set_iter_one_char:
  "set (iter (one_char p) k s) = {t. \<exists>u. s = u @ t \<and> length u = k \<and> (\<forall>c\<in>set u. p c)}"
proof (induction k arbitrary: s)
  case 0
  then show ?case by auto
next
  case (Suc k)
  show ?case
  proof (rule set_eqI, rule iffI)
    fix t assume "t \<in> set (iter (one_char p) (Suc k) s)"
    then obtain c s' where s: "s = c # s'" "p c" and t: "t \<in> set (iter (one_char p) k s')"
      by (auto simp: set_one_char)
    from t Suc.IH obtain u where "s' = u @ t" "length u = k" "\<forall>c\<in>set u. p c" by auto
    with s have "s = (c # u) @ t \<and> length (c # u) = Suc k \<and> (\<forall>x\<in>set (c # u). p x)" by simp
    then show "t \<in> {t. \<exists>u. s = u @ t \<and> length u = Suc k \<and> (\<forall>c\<in>set u. p c)}" by blast
  next
    fix t assume "t \<in> {t. \<exists>u. s = u @ t \<and> length u = Suc k \<and> (\<forall>c\<in>set u. p c)}"
    then obtain u where u: "s = u @ t" "length u = Suc k" "\<forall>c\<in>set u. p c" by auto
    then obtain c u' where cu: "u = c # u'" by (cases u) auto
    with u have "t \<in> set (iter (one_char p) k (u' @ t))" using Suc.IH by auto
    with u cu show "t \<in> set (iter (one_char p) (Suc k) s)"
      by (auto simp: set_one_char)
  qed
qed

lemma char_of_eq_small: "m < 256 \<Longrightarrow> (char_of (m::nat) = d) = ((of_char d :: nat) = m)"
  by (auto simp: char_of_eq_iff take_bit_eq_mod)

lemma lower_fix_iff:
  "py_lower_char c = d \<longleftrightarrow>
     (let n = (of_char c :: nat)
      in if (65 \<le> n \<and> n \<le> 90) \<or> (192 \<le> n \<and> n \<le> 214) \<or> (216 \<le> n \<and> n \<le> 222)
         then (of_char d :: nat) = n + 32 else c = d)"
  by (simp add: py_lower_char_def Let_def char_of_eq_small)

lemma lower_char_idem: "py_lower_char (py_lower_char c) = py_lower_char c"
  by (simp add: lower_fix_iff[of "py_lower_char c"] Let_def) (simp add: py_lower_char_def Let_def)

lemma lower_char_space: "py_isspace (py_lower_char c) = py_isspace c"
  by (simp add: py_lower_char_def py_isspace_def Let_def)


lemma char_eq_code: "(c = d) = ((of_char c :: nat) = of_char d)"
  by simp

lemma is_decimal_iff: "is_decimal c = (c \<in> set ''0123456789'')"
  unfolding is_decimal_def
  apply (simp add: char_eq_code[of c])
  apply arith
  done

lemma lower_plain:
  "py_lower_char CHR ''1'' = CHR ''1''" "py_lower_char CHR ''0'' = CHR ''0''"
  "py_lower_char CHR ''.'' = CHR ''.''" "py_lower_char CHR ''/'' = CHR ''/''"
  by (simp_all add: py_lower_char_def)

lemma chr_eq_plain:
  "chr_eq True CHR ''1'' c = (c = CHR ''1'')"
  "chr_eq True CHR ''0'' c = (c = CHR ''0'')"
  "chr_eq True CHR ''.'' c = (c = CHR ''.'')"
  "chr_eq True CHR ''/'' c = (c = CHR ''/'')"
  unfolding chr_eq_def lower_plain
  by (simp_all add: lower_fix_iff Let_def char_eq_code[of c])

lemma in_lower_letters:
  "(c \<in> set ''abcdefghijklmnopqrstuvwxyz'') = (97 \<le> (of_char c :: nat) \<and> (of_char c :: nat) \<le> 122)"
  apply (simp add: char_eq_code[of c])
  apply arith
  done

lemma in_upper_letters:
  "(c \<in> set ''ABCDEFGHIJKLMNOPQRSTUVWXYZ'') = (65 \<le> (of_char c :: nat) \<and> (of_char c :: nat) \<le> 90)"
  apply (simp add: char_eq_code[of c])
  apply arith
  done

lemma in_punct:
  "(c \<in> set ''-._;()/:'') = ((of_char c :: nat) \<in> {45, 46, 95, 59, 40, 41, 47, 58})"
  by (simp add: char_eq_code[of c])

lemma of_char_lower:
  "(of_char (py_lower_char c) :: nat) =
     (let n = (of_char c :: nat)
      in if (65 \<le> n \<and> n \<le> 90) \<or> (192 \<le> n \<and> n \<le> 214) \<or> (216 \<le> n \<and> n \<le> 222)
         then n + 32 else n)"
  by (simp add: py_lower_char_def Let_def)

lemma class_iff:
  "list_ex (\<lambda>p. chr_eq True p c) (''-._;()/:'' @ ''ABCDEFGHIJKLMNOPQRSTUVWXYZ'' @ ''0123456789'')
     = doi_charset c"
proof -
  have low: "map py_lower_char (''-._;()/:'' @ ''ABCDEFGHIJKLMNOPQRSTUVWXYZ'' @ ''0123456789'')
      = ''-._;()/:'' @ ''abcdefghijklmnopqrstuvwxyz'' @ ''0123456789''"
    by (simp add: py_lower_char_def char_of_eq_small)
  have "list_ex (\<lambda>p. chr_eq True p c) (''-._;()/:'' @ ''ABCDEFGHIJKLMNOPQRSTUVWXYZ'' @ ''0123456789'')
      = (py_lower_char c \<in> set (map py_lower_char (''-._;()/:'' @ ''ABCDEFGHIJKLMNOPQRSTUVWXYZ'' @ ''0123456789'')))"
    unfolding chr_eq_def list_ex_iff by (simp only: if_True set_map) blast
  also have "\<dots> = (py_lower_char c \<in> set ''-._;()/:'' \<or> py_lower_char c \<in> set ''abcdefghijklmnopqrstuvwxyz''
       \<or> py_lower_char c \<in> set ''0123456789'')"
    unfolding low by (simp only: set_append Un_iff)
  also have "\<dots> = doi_charset c"
    unfolding doi_charset_def in_lower_letters in_upper_letters in_punct is_decimal_iff[symmetric]
      is_decimal_def of_char_lower Let_def
    by (simp split: if_splits) arith
  finally show ?thesis .
qed


lemma steps_Seq:
  "set (re_steps (RSeq a b) ic s) = (\<Union>t\<in>set (re_steps a ic s). set (re_steps b ic t))"
  by simp

lemma steps_Chr: "set (re_steps (RChar p) ic s) = {t. \<exists>c. s = c # t \<and> chr_eq ic p c}"
  by (simp add: set_one_char)

lemma steps_Repeat_Digit:
  "set (re_steps (RRepeat RDigit m n) ic s) =
     {t. \<exists>u. s = u @ t \<and> m \<le> length u \<and> length u \<le> n \<and> (\<forall>c\<in>set u. is_decimal c)}"
proof -
  have d: "re_steps RDigit ic = one_char is_decimal" by (rule ext) simp
  show ?thesis by (auto simp: d set_iter_one_char)
qed

lemma steps_Plus_In:
  "set (re_steps (RPlus (RSet ps)) ic s) =
     {t. \<exists>u. s = u @ t \<and> u \<noteq> [] \<and> (\<forall>c\<in>set u. list_ex (\<lambda>p. chr_eq ic p c) ps)}"
  (is "?L = {t. \<exists>u. ?P u t}")
proof -
  have d: "re_steps (RSet ps) ic = one_char (\<lambda>c. list_ex (\<lambda>p. chr_eq ic p c) ps)" by (rule ext) simp
  have L: "?L = (\<Union>k\<in>{1..<Suc (length s)}.
      {t. \<exists>u. s = u @ t \<and> length u = k \<and> (\<forall>c\<in>set u. list_ex (\<lambda>p. chr_eq ic p c) ps)})"
    by (simp only: re_steps.simps d set_concat set_map set_iter_one_char set_upt image_image)
  show ?thesis
  proof (rule set_eqI, rule iffI)
    fix t assume "t \<in> ?L"
    then obtain k u where "1 \<le> k" "s = u @ t" "length u = k"
        "\<forall>c\<in>set u. list_ex (\<lambda>p. chr_eq ic p c) ps"
      unfolding L by auto
    then have "?P u t" by auto
    then show "t \<in> {t. \<exists>u. ?P u t}" by blast
  next
    fix t assume "t \<in> {t. \<exists>u. ?P u t}"
    then obtain u where u: "s = u @ t" "u \<noteq> []" "\<forall>c\<in>set u. list_ex (\<lambda>p. chr_eq ic p c) ps"
      by blast
    then have "length u \<in> {1..<Suc (length s)}" by (cases u) auto
    with u show "t \<in> ?L" unfolding L by blast
  qed
qed

lemma steps_Eol: "set (re_steps REnd ic s) = {t. t = s \<and> (s = [] \<or> s = [CHR 0x0A])}"
  by auto

lemma is_decimal_digit: "is_decimal = doi_digit"
  by (rule ext) (simp only: is_decimal_iff doi_digit_def)

lemma seq_chr:
  assumes "\<And>c. chr_eq True p c = (c = p)"
  shows "(t \<in> set (re_steps (RSeq (RChar p) R) True s)) =
         (\<exists>s'. s = p # s' \<and> t \<in> set (re_steps R True s'))"
  unfolding steps_Seq steps_Chr assms by auto

lemma seq_digits:
  "(t \<in> set (re_steps (RSeq (RRepeat RDigit m n) R) True s)) =
     (\<exists>ds s'. s = ds @ s' \<and> m \<le> length ds \<and> length ds \<le> n \<and> (\<forall>c\<in>set ds. doi_digit c)
        \<and> t \<in> set (re_steps R True s'))"
  unfolding steps_Seq steps_Repeat_Digit is_decimal_digit by auto

lemma seq_plus_eol:
  "(t \<in> set (re_steps (RSeq (RPlus (RSet ps)) REnd) True s)) =
     (\<exists>rest. s = rest @ t \<and> rest \<noteq> [] \<and> (\<forall>c\<in>set rest. list_ex (\<lambda>p. chr_eq True p c) ps)
        \<and> (t = [] \<or> t = [CHR 0x0A]))"
  unfolding steps_Seq steps_Plus_In steps_Eol by blast

lemma seq_class_eol:
  "(t \<in> set (re_steps (RSeq (RPlus (RSet (''-._;()/:'' @ ''ABCDEFGHIJKLMNOPQRSTUVWXYZ'' @ ''0123456789''))) REnd) True s)) =
     (\<exists>rest. s = rest @ t \<and> rest \<noteq> [] \<and> (\<forall>c\<in>set rest. doi_charset c)
        \<and> (t = [] \<or> t = [CHR 0x0A]))"
  by (simp only: seq_plus_eol class_iff)

lemma DOI_PATTERN_steps:
  "(t \<in> set (re_steps DOI_PATTERN True s)) =
     (\<exists>ds rest. s = ''10.'' @ ds @ ''/'' @ rest @ t
        \<and> 4 \<le> length ds \<and> length ds \<le> 9 \<and> (\<forall>c\<in>set ds. doi_digit c)
        \<and> rest \<noteq> [] \<and> (\<forall>c\<in>set rest. doi_charset c) \<and> (t = [] \<or> t = [CHR 0x0A]))"
  (is "?L = ?R")
proof -
  let ?R5 = "RSeq (RPlus (RSet (''-._;()/:'' @ ''ABCDEFGHIJKLMNOPQRSTUVWXYZ'' @ ''0123456789''))) REnd"
  let ?R4 = "RSeq (RChar CHR ''/'') ?R5"
  let ?R3 = "RSeq (RRepeat RDigit 4 9) ?R4"
  let ?R2 = "RSeq (RChar CHR ''.'') ?R3"
  let ?R1 = "RSeq (RChar CHR ''0'') ?R2"
  have D: "DOI_PATTERN = RSeq (RChar CHR ''1'') ?R1" by (simp only: DOI_PATTERN_def)
  show ?thesis
  proof
    assume ?L
    then obtain s1 where 1: "s = CHR ''1'' # s1" "t \<in> set (re_steps ?R1 True s1)"
      unfolding D seq_chr[OF chr_eq_plain(1)] by blast
    from 1(2) obtain s2 where 2: "s1 = CHR ''0'' # s2" "t \<in> set (re_steps ?R2 True s2)"
      unfolding seq_chr[OF chr_eq_plain(2)] by blast
    from 2(2) obtain s3 where 3: "s2 = CHR ''.'' # s3" "t \<in> set (re_steps ?R3 True s3)"
      unfolding seq_chr[OF chr_eq_plain(3)] by blast
    from 3(2) obtain ds s4 where 4: "s3 = ds @ s4" "4 \<le> length ds" "length ds \<le> 9"
        "\<forall>c\<in>set ds. doi_digit c" "t \<in> set (re_steps ?R4 True s4)"
      unfolding seq_digits by blast
    from 4(5) obtain s5 where 5: "s4 = CHR ''/'' # s5" "t \<in> set (re_steps ?R5 True s5)"
      unfolding seq_chr[OF chr_eq_plain(4)] by blast
    from 5(2) obtain rest where 6: "s5 = rest @ t" "rest \<noteq> []" "\<forall>c\<in>set rest. doi_charset c"
        "t = [] \<or> t = [CHR 0x0A]"
      unfolding seq_class_eol by blast
    have "s = ''10.'' @ ds @ ''/'' @ rest @ t"
      by (simp add: 1(1) 2(1) 3(1) 4(1) 5(1) 6(1))
    with 4(2-4) 6(2-4) show ?R by blast
  next
    assume ?R
    then obtain ds rest where h: "s = ''10.'' @ ds @ ''/'' @ rest @ t"
        "4 \<le> length ds" "length ds \<le> 9" "\<forall>c\<in>set ds. doi_digit c"
        "rest \<noteq> []" "\<forall>c\<in>set rest. doi_charset c" "t = [] \<or> t = [CHR 0x0A]"
      by blast
    have "t \<in> set (re_steps ?R5 True (rest @ t))"
      unfolding seq_class_eol using h(5-7) by blast
    then have "t \<in> set (re_steps ?R4 True (CHR ''/'' # rest @ t))"
      unfolding seq_chr[OF chr_eq_plain(4)] by blast
    then have "t \<in> set (re_steps ?R3 True (ds @ CHR ''/'' # rest @ t))"
      unfolding seq_digits using h(2-4) by blast
    then have "t \<in> set (re_steps ?R2 True (CHR ''.'' # ds @ CHR ''/'' # rest @ t))"
      unfolding seq_chr[OF chr_eq_plain(3)] by blast
    then have "t \<in> set (re_steps ?R1 True (CHR ''0'' # CHR ''.'' # ds @ CHR ''/'' # rest @ t))"
      unfolding seq_chr[OF chr_eq_plain(2)] by blast
    then have "t \<in> set (re_steps DOI_PATTERN True
        (CHR ''1'' # CHR ''0'' # CHR ''.'' # ds @ CHR ''/'' # rest @ t))"
      unfolding D seq_chr[OF chr_eq_plain(1)] by blast
    moreover have "s = CHR ''1'' # CHR ''0'' # CHR ''.'' # ds @ CHR ''/'' # rest @ t"
      by (simp add: h(1))
    ultimately show ?L by simp
  qed
qed

lemma DOI_PATTERN_match:
  "re_match DOI_PATTERN True s \<longleftrightarrow>
     doi_grammar s \<or> (\<exists>s'. s = s' @ [CHR 0x0A] \<and> doi_grammar s')"
proof -
  have "re_match DOI_PATTERN True s \<longleftrightarrow> (\<exists>t. t \<in> set (re_steps DOI_PATTERN True s))"
    unfolding re_match_def by (cases "re_steps DOI_PATTERN True s") auto
  also have "\<dots> \<longleftrightarrow> doi_grammar s \<or> (\<exists>s'. s = s' @ [CHR 0x0A] \<and> doi_grammar s')"
  proof
    assume "\<exists>t. t \<in> set (re_steps DOI_PATTERN True s)"
    then obtain t ds rest where h: "s = ''10.'' @ ds @ ''/'' @ rest @ t"
        "4 \<le> length ds" "length ds \<le> 9" "\<forall>c\<in>set ds. doi_digit c"
        "rest \<noteq> []" "\<forall>c\<in>set rest. doi_charset c" "t = [] \<or> t = [CHR 0x0A]"
      unfolding DOI_PATTERN_steps by blast
    have g: "doi_grammar (''10.'' @ ds @ ''/'' @ rest)"
      unfolding doi_grammar_def list_all_iff using h(2-6) by blast
    from h(7) show "doi_grammar s \<or> (\<exists>s'. s = s' @ [CHR 0x0A] \<and> doi_grammar s')"
    proof
      assume "t = []" with h(1) g show ?thesis by simp
    next
      assume "t = [CHR 0x0A]"
      with h(1) have "s = (''10.'' @ ds @ ''/'' @ rest) @ [CHR 0x0A]" by simp
      with g show ?thesis by blast
    qed
  next
    assume "doi_grammar s \<or> (\<exists>s'. s = s' @ [CHR 0x0A] \<and> doi_grammar s')"
    then obtain s' t where st: "s = s' @ t" "t = [] \<or> t = [CHR 0x0A]" "doi_grammar s'"
      by auto
    from st(3) obtain ds rest where h: "s' = ''10.'' @ ds @ ''/'' @ rest"
        "4 \<le> length ds" "length ds \<le> 9" "\<forall>c\<in>set ds. doi_digit c"
        "rest \<noteq> []" "\<forall>c\<in>set rest. doi_charset c"
      unfolding doi_grammar_def list_all_iff by blast
    have "s = ''10.'' @ ds @ ''/'' @ rest @ t" using st(1) h(1) by simp
    with h(2-6) st(2) have "t \<in> set (re_steps DOI_PATTERN True s)"
      unfolding DOI_PATTERN_steps by blast
    then show "\<exists>t. t \<in> set (re_steps DOI_PATTERN True s)" ..
  qed
  finally show ?thesis .
qed


subsection \<open>Trimming and lower-casing\<close>

lemma strip_noop:
  assumes "s = [] \<or> (\<not> py_isspace (hd s) \<and> \<not> py_isspace (last s))"
  shows "py_strip s = s"
proof (cases "s = []")
  case True
  then show ?thesis by (simp add: py_strip_def)
next
  case False
  with assms have h: "\<not> py_isspace (hd s)" and l: "\<not> py_isspace (last s)" by auto
  from False h have a: "dropWhile py_isspace s = s"
    by (cases s) auto
  from False l have b: "dropWhile py_isspace (rev s) = rev s"
    by (cases "rev s") (auto simp: hd_rev[symmetric])
  show ?thesis by (simp add: py_strip_def a b)
qed

lemma last_dropWhile_nonempty:
  "dropWhile P xs \<noteq> [] \<Longrightarrow> last (dropWhile P xs) = last xs"
  by (induction xs) (auto split: if_splits)

lemma strip_shape:
  "py_strip s = [] \<or> (\<not> py_isspace (hd (py_strip s)) \<and> \<not> py_isspace (last (py_strip s)))"
proof (cases "py_strip s = []")
  case True
  then show ?thesis by simp
next
  case False
  define A where "A = dropWhile py_isspace s"
  define B where "B = dropWhile py_isspace (rev A)"
  have s: "py_strip s = rev B" by (simp add: py_strip_def A_def B_def)
  with False have B: "B \<noteq> []" by simp
  then have A: "A \<noteq> []" by (auto simp: B_def)
  have hB: "\<not> py_isspace (hd B)" using B unfolding B_def by (rule hd_dropWhile)
  have hA: "\<not> py_isspace (hd A)" using A unfolding A_def by (rule hd_dropWhile)
  have "last B = last (rev A)" using B unfolding B_def by (rule last_dropWhile_nonempty)
  also have "\<dots> = hd A" using A by (simp add: last_rev)
  finally have lB: "last B = hd A" .
  have "hd (rev B) = last B" using B by (simp add: hd_rev)
  moreover have "last (rev B) = hd B" using B by (simp add: last_rev)
  ultimately show ?thesis using hA hB lB s by simp
qed

lemma strip_idem: "py_strip (py_strip s) = py_strip s"
  by (rule strip_noop[OF strip_shape])

lemma lower_idem: "py_lower (py_lower s) = py_lower s"
  by (simp add: py_lower_def lower_char_idem)

lemma isspace_lower_comp: "py_isspace \<circ> py_lower_char = py_isspace"
  by (rule ext) (simp add: lower_char_space)

lemma lower_strip_commute: "py_lower (py_strip s) = py_strip (py_lower s)"
  by (simp add: py_lower_def py_strip_def rev_map dropWhile_map isspace_lower_comp)

lemma normalize_idem: "normalize (normalize s) = normalize s"
  by (simp add: normalize_def lower_strip_commute lower_idem strip_idem)

lemma strip_no_final_newline: "py_strip s \<noteq> t @ [CHR 0x0A]"
proof
  assume e: "py_strip s = t @ [CHR 0x0A]"
  then have "last (py_strip s) = CHR 0x0A" by simp
  moreover have "py_isspace (CHR 0x0A)" by (simp add: py_isspace_def)
  moreover from e have "py_strip s \<noteq> []" by simp
  ultimately show False using strip_shape[of s] by auto
qed

subsection \<open>DOI validation\<close>

lemma match_stripped: "re_match DOI_PATTERN True (py_strip s) = doi_grammar (py_strip s)"
  by (simp add: DOI_PATTERN_match strip_no_final_newline)

lemma validate_doi_eq:
  "validate_doi s =
     (if py_strip s = [] then (False, ''Empty DOI'')
      else if doi_grammar (py_strip s) then (True, '''')
      else (False, ''Invalid DOI format: '' @ py_strip s))"
  by (simp add: validate_doi_def Let_def match_stripped)

lemma grammar_min_length: "doi_grammar s \<Longrightarrow> 9 \<le> length s"
proof -
  assume "doi_grammar s"
  then obtain ds rest where "s = ''10.'' @ ds @ ''/'' @ rest" "4 \<le> length ds" "rest \<noteq> []"
    unfolding doi_grammar_def by blast
  then show ?thesis by (cases rest) auto
qed

lemma grammar_first_char: "doi_grammar s \<Longrightarrow> hd s = CHR ''1''"
  unfolding doi_grammar_def by auto

lemma strip_plain:
  "py_strip ''10.1/X'' = ''10.1/X''"
  "py_strip ''bad'' = ''bad''"
  "py_strip ''10.1000/X'' = ''10.1000/X''"
  "py_strip ''not-a-doi'' = ''not-a-doi''"
  "py_strip ''10.1016/j.softx.2019.100263'' = ''10.1016/j.softx.2019.100263''"
  "py_strip '' 10.1016/j.softx.2019.100263'' = ''10.1016/j.softx.2019.100263''"
  "py_strip '''' = ''''"
  by (simp_all add: py_strip_def py_isspace_def)

lemma grammar_softx: "doi_grammar ''10.1016/j.softx.2019.100263''"
proof -
  have "''10.1016/j.softx.2019.100263'' = ''10.'' @ ''1016'' @ ''/'' @ ''j.softx.2019.100263''"
    by simp
  moreover have "list_all doi_digit ''1016''" by (simp add: doi_digit_def)
  moreover have "list_all doi_charset ''j.softx.2019.100263''" by (simp add: doi_charset_def)
  ultimately show ?thesis unfolding doi_grammar_def
    by (intro exI[of _ "''1016''"] exI[of _ "''j.softx.2019.100263''"]) simp
qed

lemma grammar_1000X: "doi_grammar ''10.1000/X''"
proof -
  have "''10.1000/X'' = ''10.'' @ ''1000'' @ ''/'' @ ''X''" by simp
  moreover have "list_all doi_digit ''1000''" by (simp add: doi_digit_def)
  moreover have "list_all doi_charset ''X''" by (simp add: doi_charset_def)
  ultimately show ?thesis unfolding doi_grammar_def
    by (intro exI[of _ "''1000''"] exI[of _ "''X''"]) simp
qed

lemma validate_doi_examples:
  "validate_doi ''10.1016/j.softx.2019.100263'' = (True, '''')"
  "validate_doi '' 10.1016/j.softx.2019.100263'' = (True, '''')"
  "validate_doi ''10.1000/X'' = (True, '''')"
  "validate_doi ''not-a-doi'' = (False, ''Invalid DOI format: not-a-doi'')"
  "validate_doi ''10.1/X'' = (False, ''Invalid DOI format: 10.1/X'')"
  "validate_doi ''bad'' = (False, ''Invalid DOI format: bad'')"
  "validate_doi '''' = (False, ''Empty DOI'')"
proof -
  show "validate_doi ''10.1016/j.softx.2019.100263'' = (True, '''')"
    by (simp add: validate_doi_eq strip_plain grammar_softx)
  show "validate_doi '' 10.1016/j.softx.2019.100263'' = (True, '''')"
    by (simp add: validate_doi_eq strip_plain grammar_softx)
  show "validate_doi ''10.1000/X'' = (True, '''')"
    by (simp add: validate_doi_eq strip_plain grammar_1000X)
  show "validate_doi ''not-a-doi'' = (False, ''Invalid DOI format: not-a-doi'')"
    using grammar_first_char[of "''not-a-doi''"] by (auto simp: validate_doi_eq strip_plain)
  show "validate_doi ''10.1/X'' = (False, ''Invalid DOI format: 10.1/X'')"
    using grammar_min_length[of "''10.1/X''"] by (auto simp: validate_doi_eq strip_plain)
  show "validate_doi ''bad'' = (False, ''Invalid DOI format: bad'')"
    using grammar_min_length[of "''bad''"] by (auto simp: validate_doi_eq strip_plain)
  show "validate_doi '''' = (False, ''Empty DOI'')"
    by (simp add: validate_doi_eq strip_plain)
qed

subsection \<open>Duplicate detection\<close>

lemma fo_in:
  "key \<in> normalize ` set pre \<Longrightarrow> first_occurrence (pre @ ys) key = first_occurrence pre key"
  unfolding first_occurrence_def by (auto simp: takeWhile_append1)

lemma fo_notin:
  "key \<notin> normalize ` set pre \<Longrightarrow>
     first_occurrence (pre @ ys) key = length pre + first_occurrence ys key"
  unfolding first_occurrence_def by (subst takeWhile_append2) auto

lemma fo_lt: "key \<in> normalize ` set xs \<Longrightarrow> first_occurrence xs key < length xs"
  unfolding first_occurrence_def by (induction xs) auto

lemma is_first_prefix:
  assumes "i < length pre"
  shows "is_first (pre @ ys) i = is_first pre i"
proof -
  from assms have "normalize (pre ! i) \<in> normalize ` set pre" by simp
  then show ?thesis using assms by (simp add: is_first_def nth_append fo_in)
qed

lemma fo_prefix:
  assumes "i < length pre"
  shows "first_occurrence (pre @ ys) (normalize ((pre @ ys) ! i))
           = first_occurrence pre (normalize (pre ! i))"
proof -
  from assms have "normalize (pre ! i) \<in> normalize ` set pre" by simp
  then show ?thesis using assms by (simp add: nth_append fo_in)
qed

lemma is_first_new:
  "is_first (pre @ [x]) (length pre) = (normalize x \<notin> normalize ` set pre)"
proof (cases "normalize x \<in> normalize ` set pre")
  case True
  then show ?thesis using fo_lt[OF True] by (simp add: is_first_def fo_in)
next
  case False
  have "first_occurrence (pre @ [x]) (normalize x) = length pre + first_occurrence [x] (normalize x)"
    using False by (rule fo_notin)
  also have "first_occurrence [x] (normalize x) = 0"
    by (simp add: first_occurrence_def)
  finally show ?thesis using False by (simp add: is_first_def)
qed

lemma unique_spec_snoc:
  "unique_spec (pre @ [x]) =
     unique_spec pre @ (if normalize x \<in> normalize ` set pre then [] else [x])"
proof -
  have a: "filter (is_first (pre @ [x])) [0..<length pre] = filter (is_first pre) [0..<length pre]"
    by (rule filter_cong[OF refl]) (simp add: is_first_prefix)
  have b: "map (\<lambda>i. (pre @ [x]) ! i) (filter (is_first pre) [0..<length pre])
           = map (\<lambda>i. pre ! i) (filter (is_first pre) [0..<length pre])"
    by (rule map_cong[OF refl]) (simp add: nth_append)
  show ?thesis
    by (simp add: unique_spec_def a b is_first_new)
qed

lemma duplicates_spec_snoc:
  "duplicates_spec (pre @ [x]) =
     duplicates_spec pre @
       (if normalize x \<in> normalize ` set pre
        then [(length pre + 1, x, first_occurrence pre (normalize x) + 1)] else [])"
proof -
  have a: "filter (\<lambda>i. \<not> is_first (pre @ [x]) i) [0..<length pre]
           = filter (\<lambda>i. \<not> is_first pre i) [0..<length pre]"
    by (rule filter_cong[OF refl]) (simp add: is_first_prefix)
  have b: "map (\<lambda>i. (i + 1, (pre @ [x]) ! i,
                    first_occurrence (pre @ [x]) (normalize ((pre @ [x]) ! i)) + 1))
             (filter (\<lambda>i. \<not> is_first pre i) [0..<length pre])
           = map (\<lambda>i. (i + 1, pre ! i, first_occurrence pre (normalize (pre ! i)) + 1))
               (filter (\<lambda>i. \<not> is_first pre i) [0..<length pre])"
  proof (rule map_cong[OF refl])
    fix i assume "i \<in> set (filter (\<lambda>i. \<not> is_first pre i) [0..<length pre])"
    then have i: "i < length pre" by simp
    then have n: "(pre @ [x]) ! i = pre ! i" by (simp add: nth_append)
    have "first_occurrence (pre @ [x]) (normalize ((pre @ [x]) ! i))
          = first_occurrence pre (normalize (pre ! i))"
      using i by (rule fo_prefix)
    then show "(i + 1, (pre @ [x]) ! i,
            first_occurrence (pre @ [x]) (normalize ((pre @ [x]) ! i)) + 1)
          = (i + 1, pre ! i, first_occurrence pre (normalize (pre ! i)) + 1)"
      by (simp only: n)
  qed
  have c: "[0..<length (pre @ [x])] = [0..<length pre] @ [length pre]" by simp
  show ?thesis
    unfolding duplicates_spec_def c filter_append map_append a b
    by (simp add: is_first_new fo_in)
qed

lemma seen_spec_snoc:
  "seen_spec (pre @ [x]) =
     (if normalize x \<in> normalize ` set pre then seen_spec pre
      else (seen_spec pre)(normalize x \<mapsto> length pre))"
proof (rule ext)
  fix key
  have new: "first_occurrence (pre @ [x]) (normalize x) = length pre"
    if "normalize x \<notin> normalize ` set pre"
  proof -
    have "first_occurrence (pre @ [x]) (normalize x)
          = length pre + first_occurrence [x] (normalize x)"
      using that by (rule fo_notin)
    then show ?thesis by (simp add: first_occurrence_def)
  qed
  have L: "seen_spec (pre @ [x]) key =
      (if key \<in> normalize ` set pre then Some (first_occurrence pre key)
       else if key = normalize x then Some (length pre) else None)"
  proof (cases "key \<in> normalize ` set pre")
    case True
    then show ?thesis by (simp add: seen_spec_def fo_in)
  next
    case False
    then show ?thesis by (auto simp: seen_spec_def new)
  qed
  have R: "(if normalize x \<in> normalize ` set pre then seen_spec pre
      else (seen_spec pre)(normalize x \<mapsto> length pre)) key =
      (if key \<in> normalize ` set pre then Some (first_occurrence pre key)
       else if key = normalize x then Some (length pre) else None)"
    by (cases "key = normalize x") (simp_all add: seen_spec_def)
  show "seen_spec (pre @ [x]) key =
     (if normalize x \<in> normalize ` set pre then seen_spec pre
      else (seen_spec pre)(normalize x \<mapsto> length pre)) key"
    by (simp only: L R)
qed

lemma detect_loop_spec:
  "detect_loop (length pre) rest (seen_spec pre, unique_spec pre, duplicates_spec pre)
     = (seen_spec (pre @ rest), unique_spec (pre @ rest), duplicates_spec (pre @ rest))"
proof (induction rest arbitrary: pre)
  case Nil
  then show ?case by simp
next
  case (Cons item rest)
  have step: "detect_loop (length pre) (item # rest)
                (seen_spec pre, unique_spec pre, duplicates_spec pre)
              = detect_loop (length (pre @ [item])) rest
                  (seen_spec (pre @ [item]), unique_spec (pre @ [item]),
                   duplicates_spec (pre @ [item]))"
  proof (cases "normalize item \<in> normalize ` set pre")
    case True
    then have "seen_spec pre (normalize item) = Some (first_occurrence pre (normalize item))"
      by (simp add: seen_spec_def)
    then show ?thesis using True
      by (simp add: normalize_def[symmetric] seen_spec_snoc unique_spec_snoc
          duplicates_spec_snoc)
  next
    case False
    then have "seen_spec pre (normalize item) = None"
      by (simp add: seen_spec_def)
    then show ?thesis using False
      by (simp add: normalize_def[symmetric] seen_spec_snoc unique_spec_snoc
          duplicates_spec_snoc)
  qed
  show ?case using Cons.IH[of "pre @ [item]"] by (simp only: step append_assoc append_Cons append_Nil)
qed

lemma detect_duplicates_eq:
  "detect_duplicates items = (unique_spec items, duplicates_spec items)"
proof -
  have e: "seen_spec [] = Map.empty" "unique_spec [] = []" "duplicates_spec [] = []"
    by (simp_all add: seen_spec_def unique_spec_def duplicates_spec_def)
  show ?thesis
    using detect_loop_spec[of "[]" items] by (simp add: detect_duplicates_def e)
qed

lemma distinct_unique_spec: "distinct (map normalize (unique_spec xs))"
proof -
  have "inj_on (\<lambda>i. normalize (xs ! i)) (set (filter (is_first xs) [0..<length xs]))"
    by (rule inj_onI) (auto simp: is_first_def)
  then show ?thesis
    by (simp add: unique_spec_def distinct_map comp_def)
qed

lemma validate_loop_valid:
  "fst (validate_loop f i items (v, b)) = v @ filter (\<lambda>x. fst (f x)) items"
  by (induction items arbitrary: i v b) (auto split: prod.splits)

lemma validate_loop_counts:
  "length (fst (validate_loop f i items (v, b))) + length (snd (validate_loop f i items (v, b)))
     = length v + length b + length items"
  by (induction items arbitrary: i v b) (auto split: prod.splits)

subsection \<open>The lookup functions\<close>

lemma search_scopus_api_interrupt:
  "search_scopus_api svc doi key (g\<lparr> interrupt_flag := True \<rparr>)
     = (Inl KeyboardInterrupt, g\<lparr> interrupt_flag := True \<rparr>)"
  by (simp add: search_scopus_api_def)

lemma search_scopus_api_title_interrupt:
  "search_scopus_api_title svc title key (g\<lparr> interrupt_flag := True \<rparr>)
     = (Inl KeyboardInterrupt, g\<lparr> interrupt_flag := True \<rparr>)"
  by (simp add: search_scopus_api_title_def)

lemma search_openalex_doi_interrupt:
  "search_openalex_doi svc doi (g\<lparr> interrupt_flag := True \<rparr>)
     = (Inl KeyboardInterrupt, g\<lparr> interrupt_flag := True \<rparr>)"
  by (simp add: search_openalex_doi_def)

lemma search_openalex_title_interrupt:
  "search_openalex_title svc title (g\<lparr> interrupt_flag := True \<rparr>)
     = (Inl KeyboardInterrupt, g\<lparr> interrupt_flag := True \<rparr>)"
  by (simp add: search_openalex_title_def)

lemma search_scopus_api_returns:
  assumes "\<not> interrupt_flag g"
  shows "\<exists>r g'. search_scopus_api svc doi key g = (Inr r, g')
           \<and> requests_made g' = requests_made g + 1 \<and> interrupt_flag g' = interrupt_flag g"
  using assms
  by (auto simp: search_scopus_api_def Let_def split: http.splits list.splits)

lemma search_scopus_api_title_returns:
  assumes "\<not> interrupt_flag g"
  shows "\<exists>r g'. search_scopus_api_title svc title key g = (Inr r, g')
           \<and> requests_made g' = requests_made g + 1 \<and> interrupt_flag g' = interrupt_flag g"
  using assms
  by (auto simp: search_scopus_api_title_def Let_def split: http.splits list.splits)

lemma search_openalex_doi_returns:
  assumes "\<not> interrupt_flag g"
  shows "\<exists>r g'. search_openalex_doi svc doi g = (Inr r, g')
           \<and> requests_made g' = requests_made g + 1 \<and> interrupt_flag g' = interrupt_flag g"
  using assms
  by (auto simp: search_openalex_doi_def Let_def split: http.splits)

lemma search_openalex_title_returns:
  assumes "\<not> interrupt_flag g"
  shows "\<exists>r g'. search_openalex_title svc title g = (Inr r, g')
           \<and> requests_made g' = requests_made g + 1 \<and> interrupt_flag g' = interrupt_flag g"
  using assms
  by (auto simp: search_openalex_title_def Let_def split: http.splits list.splits option.splits)

lemma search_scopus_api_429:
  assumes "\<not> interrupt_flag g" "scopus_get svc (''DOI('' @ doi @ '')'') key None = Response 429 es"
  shows "search_scopus_api svc doi key g
         = (Inr (None, None),
            g\<lparr> requests_made := requests_made g + 1, slept := slept g + 5,
               errors_count := errors_count g + 1 \<rparr>)"
  using assms by (simp add: search_scopus_api_def Let_def)

lemma search_scopus_api_title_429:
  assumes "\<not> interrupt_flag g"
    "scopus_get svc (''TITLE('' @ title @ '')'') key (Some 1) = Response 429 es"
  shows "search_scopus_api_title svc title key g
         = (Inr (None, None, None),
            g\<lparr> requests_made := requests_made g + 1, slept := slept g + 5,
               errors_count := errors_count g + 1 \<rparr>)"
  using assms by (simp add: search_scopus_api_title_def Let_def)

lemma search_scopus_api_failure:
  assumes "\<not> interrupt_flag g"
    "scopus_get svc (''DOI('' @ doi @ '')'') key None = RequestException
     \<or> (\<exists>st es. scopus_get svc (''DOI('' @ doi @ '')'') key None = Response st es
            \<and> st \<noteq> 200 \<and> st \<noteq> 429)"
  shows "search_scopus_api svc doi key g
         = (Inr (None, None),
            g\<lparr> requests_made := requests_made g + 1, errors_count := errors_count g + 1 \<rparr>)"
  using assms by (auto simp: search_scopus_api_def Let_def)

lemma search_scopus_api_title_failure:
  assumes "\<not> interrupt_flag g"
    "scopus_get svc (''TITLE('' @ title @ '')'') key (Some 1) = RequestException
     \<or> (\<exists>st es. scopus_get svc (''TITLE('' @ title @ '')'') key (Some 1) = Response st es
            \<and> st \<noteq> 200 \<and> st \<noteq> 429)"
  shows "search_scopus_api_title svc title key g
         = (Inr (None, None, None),
            g\<lparr> requests_made := requests_made g + 1, errors_count := errors_count g + 1 \<rparr>)"
  using assms by (auto simp: search_scopus_api_title_def Let_def)

lemma search_openalex_doi_failure:
  assumes "\<not> interrupt_flag g"
    "openalex_work_get svc (''https://api.openalex.org/works/https://doi.org/'' @ doi)
       = RequestException
     \<or> (\<exists>st b. openalex_work_get svc (''https://api.openalex.org/works/https://doi.org/'' @ doi)
                  = Response st b \<and> st \<noteq> 200)"
  shows "search_openalex_doi svc doi g
         = (Inr None,
            g\<lparr> requests_made := requests_made g + 1, errors_count := errors_count g + 1 \<rparr>)"
  using assms by (auto simp: search_openalex_doi_def Let_def)

lemma search_openalex_title_failure:
  assumes "\<not> interrupt_flag g"
    "openalex_search_get svc title 1 = RequestException
     \<or> (\<exists>st ws. openalex_search_get svc title 1 = Response st ws \<and> st \<noteq> 200)"
  shows "search_openalex_title svc title g
         = (Inr (None, None),
            g\<lparr> requests_made := requests_made g + 1, errors_count := errors_count g + 1 \<rparr>)"
  using assms by (auto simp: search_openalex_title_def Let_def)

lemma search_scopus_api_empty:
  assumes "\<not> interrupt_flag g" "scopus_get svc (''DOI('' @ doi @ '')'') key None = Response 200 []"
  shows "search_scopus_api svc doi key g
         = (Inr (None, None),
            g\<lparr> requests_made := requests_made g + 1, errors_count := errors_count g + 1 \<rparr>)"
  using assms by (simp add: search_scopus_api_def Let_def)

lemma search_scopus_api_title_empty:
  assumes "\<not> interrupt_flag g"
    "scopus_get svc (''TITLE('' @ title @ '')'') key (Some 1) = Response 200 []"
  shows "search_scopus_api_title svc title key g
         = (Inr (None, None, None),
            g\<lparr> requests_made := requests_made g + 1, errors_count := errors_count g + 1 \<rparr>)"
  using assms by (simp add: search_scopus_api_title_def Let_def)

lemma search_openalex_title_empty:
  assumes "\<not> interrupt_flag g" "openalex_search_get svc title 1 = Response 200 []"
  shows "search_openalex_title svc title g
         = (Inr (None, None),
            g\<lparr> requests_made := requests_made g + 1, errors_count := errors_count g + 1 \<rparr>)"
  using assms by (simp add: search_openalex_title_def Let_def)

lemma save_final_results_errors:
  "rs \<noteq> [] \<Longrightarrow> map_sum id sm_errors (fst (save_final_results rs mode fs g)) = Inr (errors_count g)"
  by (simp add: save_final_results_def Let_def)

subsection \<open>Processing one item\<close>

lemma get_normalized: "ResultCache_get rc key = cache rc (normalize key)"
  by (simp add: ResultCache_get_def normalize_def)






lemma process_doi_item_fallback:
  assumes "use_cache \<longrightarrow> cache rc (normalize item) = None"
    and "search_scopus_api svc item key g = (Inr (title, scopus_id), g1)"
    and "\<not> truthy scopus_id"
    and "search_openalex_doi svc item g1 = (Inr title', g2)"
  shows "process_doi_item svc now item key rc use_cache g =
     (Inr \<lparr> dr_doi = item, dr_title = title', dr_scopus_id = scopus_id, dr_cached = False \<rparr>,
      rc, g2\<lparr> slept := slept g2 + DELAY_BETWEEN_REQUESTS \<rparr>)"
  using assms by (auto simp: process_doi_item_def get_normalized Let_def)




lemma process_title_item_fallback:
  assumes "use_cache \<longrightarrow> cache rc (normalize item) = None"
    and "search_scopus_api_title svc item key g = (Inr (title, scopus_id, doi), g1)"
    and "\<not> truthy scopus_id"
    and "search_openalex_title svc item g1 = (Inr (title', doi'), g2)"
  shows "process_title_item svc now item key rc use_cache g =
     (Inr \<lparr> tr_search_title = item, tr_found_title = title', tr_scopus_id = scopus_id,
            tr_doi = doi', tr_cached = False \<rparr>,
      rc, g2\<lparr> slept := slept g2 + DELAY_BETWEEN_REQUESTS \<rparr>)"
  using assms by (auto simp: process_title_item_def get_normalized Let_def)



subsection \<open>The loop of main\<close>

lemma process_loop_Cons:
  "process_loop env i (item # items) st =
     (if interrupt_flag (ls_globals st) then st
      else case process_item env (env_start_index env + i) item (ls_cache st) (ls_globals st) of
             (Inl e, rc', g') \<Rightarrow> st\<lparr> ls_cache := rc', ls_globals := g' \<rparr>
           | (Inr row, rc', g') \<Rightarrow>
               process_loop env (i + 1) items
                 \<lparr> ls_results = ls_results st @ [row], ls_cache = rc',
                   ls_files = (if i mod 10 = 0
                               then save_checkpoint
                                      \<lparr> search_mode = env_search_mode env,
                                        total_items = env_original_count env,
                                        last_processed_index = env_start_index env + i,
                                        timestamp = env_clock env (env_start_index env + i) \<rparr>
                                      (ls_results st @ [row]) (ls_files st)
                               else ls_files st),
                   ls_globals = g' \<rparr>)"
  by (simp add: process_item_def Let_def split: prod.splits sum.splits interrupt.splits)

lemma process_item_doi_nothing:
  assumes "env_search_mode env = ''doi''"
    and "\<And>q k c. scopus_get (env_services env) q k c = Response 200 []"
    and "\<And>u. \<exists>t. openalex_work_get (env_services env) u = Response 200 t"
    and "\<not> interrupt_flag g"
    and "env_use_cache env \<longrightarrow> cache rc = Map.empty"
  shows "\<exists>t g'. process_item env n item rc g = (Inr (DoiRow item t None), rc, g')
           \<and> requests_made g' = requests_made g + 2
           \<and> errors_count g' = errors_count g + 1
           \<and> cache_hits g' = cache_hits g \<and> \<not> interrupt_flag g'"
proof -
  let ?g1 = "g\<lparr> requests_made := requests_made g + 1, errors_count := errors_count g + 1 \<rparr>"
  have s: "search_scopus_api (env_services env) item (env_api_key env) g = (Inr (None, None), ?g1)"
    by (rule search_scopus_api_empty[OF assms(4) assms(2)])
  obtain t where t: "openalex_work_get (env_services env)
      (''https://api.openalex.org/works/https://doi.org/'' @ item) = Response 200 t"
    using assms(3) by blast
  have o: "search_openalex_doi (env_services env) item ?g1
           = (Inr t, ?g1\<lparr> requests_made := requests_made ?g1 + 1 \<rparr>)"
    using assms(4) t by (simp add: search_openalex_doi_def Let_def)
  have m: "env_use_cache env \<longrightarrow> cache rc (normalize item) = None"
    using assms(5) by simp
  have n: "\<not> truthy None" by (simp add: truthy_def)
  show ?thesis
    using assms(4)
    by (simp add: process_item_def assms(1) process_doi_item_fallback[OF m s n o])
qed

lemma process_item_title_nothing:
  assumes "env_search_mode env \<noteq> ''doi''"
    and "\<And>q k c. scopus_get (env_services env) q k c = Response 200 []"
    and "\<And>q n. openalex_search_get (env_services env) q n = Response 200 []"
    and "\<not> interrupt_flag g"
    and "env_use_cache env \<longrightarrow> cache rc = Map.empty"
  shows "\<exists>g'. process_item env n item rc g = (Inr (TitleRow item None None None), rc, g')
           \<and> requests_made g' = requests_made g + 2
           \<and> errors_count g' = errors_count g + 2
           \<and> cache_hits g' = cache_hits g \<and> \<not> interrupt_flag g'"
proof -
  let ?g1 = "g\<lparr> requests_made := requests_made g + 1, errors_count := errors_count g + 1 \<rparr>"
  let ?g2 = "?g1\<lparr> requests_made := requests_made ?g1 + 1, errors_count := errors_count ?g1 + 1 \<rparr>"
  have s: "search_scopus_api_title (env_services env) item (env_api_key env) g
           = (Inr (None, None, None), ?g1)"
    by (rule search_scopus_api_title_empty[OF assms(4) assms(2)])
  have f1: "\<not> interrupt_flag ?g1" using assms(4) by simp
  have o: "search_openalex_title (env_services env) item ?g1 = (Inr (None, None), ?g2)"
    by (rule search_openalex_title_empty[OF f1 assms(3)])
  have m: "env_use_cache env \<longrightarrow> cache rc (normalize item) = None"
    using assms(5) by simp
  have n: "\<not> truthy None" by (simp add: truthy_def)
  show ?thesis
    using assms(4)
    by (simp add: process_item_def assms(1) process_title_item_fallback[OF m s n o])
qed

lemma process_loop_nothing_found:
  assumes "\<And>n item rc g. \<not> interrupt_flag g \<Longrightarrow> env_use_cache env \<longrightarrow> cache rc = Map.empty \<Longrightarrow>
      \<exists>row g'. process_item env n item rc g = (Inr row, rc, g')
           \<and> row_scopus_id row = None
           \<and> requests_made g' = requests_made g + 2
           \<and> errors_count g' = errors_count g + e
           \<and> cache_hits g' = cache_hits g \<and> \<not> interrupt_flag g'"
    and "\<not> interrupt_flag (ls_globals st)"
    and "env_use_cache env \<longrightarrow> cache (ls_cache st) = Map.empty"
  shows "map row_scopus_id (ls_results (process_loop env i items st))
           = map row_scopus_id (ls_results st) @ replicate (length items) None
         \<and> requests_made (ls_globals (process_loop env i items st))
           = requests_made (ls_globals st) + 2 * length items
         \<and> errors_count (ls_globals (process_loop env i items st))
           = errors_count (ls_globals st) + e * length items
         \<and> cache_hits (ls_globals (process_loop env i items st)) = cache_hits (ls_globals st)"
  using assms(2,3)
proof (induction items arbitrary: i st)
  case Nil
  then show ?case by simp
next
  case (Cons item items)
  from assms(1)[OF Cons.prems(1) Cons.prems(2), of "env_start_index env + i" item]
  obtain row g' where p: "process_item env (env_start_index env + i) item (ls_cache st)
        (ls_globals st) = (Inr row, ls_cache st, g')"
    and r: "row_scopus_id row = None"
    and q: "requests_made g' = requests_made (ls_globals st) + 2"
    and e: "errors_count g' = errors_count (ls_globals st) + e"
    and h: "cache_hits g' = cache_hits (ls_globals st)"
    and f: "\<not> interrupt_flag g'"
    by blast
  define st' where "st' = \<lparr> ls_results = ls_results st @ [row], ls_cache = ls_cache st,
       ls_files = (if i mod 10 = 0
                   then save_checkpoint
                          \<lparr> search_mode = env_search_mode env,
                            total_items = env_original_count env,
                            last_processed_index = env_start_index env + i,
                            timestamp = env_clock env (env_start_index env + i) \<rparr>
                          (ls_results st @ [row]) (ls_files st)
                   else ls_files st),
       ls_globals = g' \<rparr>"
  have step: "process_loop env i (item # items) st = process_loop env (i + 1) items st'"
    using Cons.prems(1) by (simp only: process_loop_Cons p st'_def) simp
  have "\<not> interrupt_flag (ls_globals st')" using f by (simp add: st'_def)
  moreover have "env_use_cache env \<longrightarrow> cache (ls_cache st') = Map.empty"
    using Cons.prems(2) by (simp add: st'_def)
  ultimately have IH: "map row_scopus_id (ls_results (process_loop env (i + 1) items st'))
           = map row_scopus_id (ls_results st') @ replicate (length items) None
         \<and> requests_made (ls_globals (process_loop env (i + 1) items st'))
           = requests_made (ls_globals st') + 2 * length items
         \<and> errors_count (ls_globals (process_loop env (i + 1) items st'))
           = errors_count (ls_globals st') + e * length items
         \<and> cache_hits (ls_globals (process_loop env (i + 1) items st')) = cache_hits (ls_globals st')"
    by (rule Cons.IH)
  have s': "ls_results st' = ls_results st @ [row]" "ls_globals st' = g'"
    by (simp_all add: st'_def)
  show ?case
    unfolding step using IH r q e h
    by (simp add: s' replicate_app_Cons_same)
qed

subsection \<open>The summary of a run that finds nothing\<close>

lemma filter_all_none:
  assumes "map f rs = replicate n None"
  shows "filter (\<lambda>r. f r \<noteq> None) rs = []" and "filter (\<lambda>r. f r = None) rs = rs"
    and "length rs = n"
proof -
  have a: "\<And>r. r \<in> set rs \<Longrightarrow> f r = None"
  proof -
    fix r assume "r \<in> set rs"
    then have "f r \<in> set (map f rs)" by simp
    then show "f r = None" unfolding assms by simp
  qed
  show "filter (\<lambda>r. f r \<noteq> None) rs = []" using a by (simp add: filter_empty_conv)
  show "filter (\<lambda>r. f r = None) rs = rs" using a by (simp add: filter_id_conv)
  show "length rs = n" using arg_cong[OF assms, of length] by simp
qed

lemma main_summary_nothing_found:
  assumes "arg_doi a \<or> arg_title a" "arg_limit a = None" "\<not> arg_resume a" "\<not> arg_dry_run a"
    and mode: "mode = (if arg_title a then ''title'' else ''doi'')"
    and step: "\<And>env n item rc g.
        env_services env = svc \<Longrightarrow> env_search_mode env = mode \<Longrightarrow> \<not> interrupt_flag g \<Longrightarrow>
        env_use_cache env \<longrightarrow> cache rc = Map.empty \<Longrightarrow>
        \<exists>row g'. process_item env n item rc g = (Inr row, rc, g')
           \<and> row_scopus_id row = None
           \<and> requests_made g' = requests_made g + 2
           \<and> errors_count g' = errors_count g + e
           \<and> cache_hits g' = cache_hits g \<and> \<not> interrupt_flag g'"
    and flag: "\<not> interrupt_flag g"
    and nocache: "arg_no_cache a \<or> cache_json fs = None"
    and nonempty: "unique_items (validate_batch lines mode) \<noteq> []"
  shows "mr_summary (main svc clock a key lines fs g) =
     Some \<lparr> sm_total = length (unique_items (validate_batch lines mode)),
            sm_found = 0,
            sm_not_found = length (unique_items (validate_batch lines mode)),
            sm_api_requests = requests_made g + 2 * length (unique_items (validate_batch lines mode)),
            sm_cache_hits = cache_hits g,
            sm_errors = errors_count g + e * length (unique_items (validate_batch lines mode)) \<rparr>"
proof -
  define rep where "rep = validate_batch lines mode"
  define items where "items = unique_items rep"
  define fs1 where "fs1 = (if invalid rep > 0 \<or> duplicates rep > 0
                           then save_validation_report rep mode fs else fs)"
  define env where "env = \<lparr> env_services = svc, env_clock = clock, env_search_mode = mode,
      env_api_key = key, env_use_cache = (\<not> arg_no_cache a),
      env_original_count = length lines, env_start_index = 0 \<rparr>"
  define st0 where "st0 = \<lparr> ls_results = [], ls_cache = ResultCache_init (cache_json fs),
      ls_files = fs1, ls_globals = g \<rparr>"
  define S where "S = process_loop env 1 items st0"
  have ne: "items \<noteq> []" using nonempty by (simp add: items_def rep_def)
  have m: "main svc clock a key lines fs g =
      (case save_final_results (ls_results S) mode
              ((ls_files S)\<lparr> cache_json := cache_file (ls_cache S) \<rparr>) (ls_globals S) of
         (Inl e, fs3) \<Rightarrow> \<lparr> mr_error = Some e, mr_summary = None, mr_files = fs3,
                            mr_globals = ls_globals S \<rparr>
       | (Inr s, fs3) \<Rightarrow> \<lparr> mr_error = None, mr_summary = Some s, mr_files = fs3,
                            mr_globals = ls_globals S \<rparr>)"
    using assms(1-4) ne[unfolded items_def rep_def]
    by (simp add: main_def Let_def mode[symmetric] select_items_def load_checkpoint_def
        S_def st0_def env_def fs1_def items_def rep_def split: prod.split sum.split)
  have s1: "\<And>n item rc g. \<not> interrupt_flag g \<Longrightarrow> env_use_cache env \<longrightarrow> cache rc = Map.empty \<Longrightarrow>
      \<exists>row g'. process_item env n item rc g = (Inr row, rc, g')
           \<and> row_scopus_id row = None
           \<and> requests_made g' = requests_made g + 2
           \<and> errors_count g' = errors_count g + e
           \<and> cache_hits g' = cache_hits g \<and> \<not> interrupt_flag g'"
    by (rule step) (simp_all add: env_def)
  have f0: "\<not> interrupt_flag (ls_globals st0)" using flag by (simp add: st0_def)
  have c0: "env_use_cache env \<longrightarrow> cache (ls_cache st0) = Map.empty"
    using nocache
    by (auto simp: env_def st0_def ResultCache_init_def ResultCache_load_cache_def)
  from process_loop_nothing_found[of env e st0 1 items, OF s1 f0 c0]
  have r: "map row_scopus_id (ls_results S) = replicate (length items) None"
    and q: "requests_made (ls_globals S) = requests_made g + 2 * length items"
    and er: "errors_count (ls_globals S) = errors_count g + e * length items"
    and h: "cache_hits (ls_globals S) = cache_hits g"
    by (simp_all add: S_def st0_def)
  from filter_all_none[OF r] ne have rs: "ls_results S \<noteq> []" by auto
  show ?thesis
    unfolding m using rs filter_all_none[OF r] q er h
    by (simp add: save_final_results_def Let_def items_def rep_def)
qed


text \<open>
  Claim C5, amended, for the input strings whose code points are all below 256 (ASCII
  and Latin-1), which are the strings of this theory. On such an input \<open>validate_doi\<close> first trims the
  surrounding whitespace. It fails with the empty-input message when the trimmed input
  is empty, with the format message (carrying the trimmed input) when the trimmed input
  is not of the form \<open>10.<4-9 digits>/<allowed-charset>\<close>, with the digits \<open>0-9\<close>
  and the letters \<open>A-Z\<close> in either case, and accepts otherwise.
  \<open>"10.1016/j.softx.2019.100263"\<close> is accepted, \<open>"not-a-doi"\<close> fails with the format
  message and \<open>""\<close> with the empty-input message. Input with a code point from 256 on
  is outside this statement.
\<close>

theorem C5_validate_doi_trimmed:
  "validate_doi s =
     (if py_strip s = [] then (False, ''Empty DOI'')
      else if doi_grammar (py_strip s) then (True, '''')
      else (False, ''Invalid DOI format: '' @ py_strip s))
   \<and> validate_doi ''10.1016/j.softx.2019.100263'' = (True, '''')
   \<and> validate_doi ''not-a-doi'' = (False, ''Invalid DOI format: not-a-doi'')
   \<and> validate_doi '''' = (False, ''Empty DOI'')"
  using validate_doi_eq[of s] validate_doi_examples(1,4,7) by simp

text \<open>
  Claim C5 as it is worded fails: a DOI with a leading blank is not of the form
  \<open>10.<4-9 digits>/<allowed-charset>\<close>, and \<open>validate_doi\<close> accepts it.
\<close>

theorem C5_padded_doi_accepted:
  "\<not> doi_grammar '' 10.1016/j.softx.2019.100263''
   \<and> validate_doi '' 10.1016/j.softx.2019.100263'' = (True, '''')"
  using grammar_first_char[of "'' 10.1016/j.softx.2019.100263''"] validate_doi_examples(2)
  by auto


lemma normalize_examples:
  "normalize ''10.1/A'' = ''10.1/a''"
  "normalize ''10.1/a'' = ''10.1/a''"
  "normalize ''10.1/B'' = ''10.1/b''"
  "normalize ''10.1000/X'' = ''10.1000/x''"
  by (simp_all add: normalize_def py_lower_def py_lower_char_def py_strip_def py_isspace_def
      char_of_eq_small)

lemma detect_loop_step:
  "detect_loop i (item # items) (seen, uniq, dups) =
     (case seen (normalize item) of
        Some first \<Rightarrow> detect_loop (i + 1) items (seen, uniq, dups @ [(i + 1, item, first + 1)])
      | None \<Rightarrow> detect_loop (i + 1) items (seen(normalize item \<mapsto> i), uniq @ [item], dups))"
  by (simp add: normalize_def Let_def split: option.split)

text \<open>
  Claim C6. \<open>detect_duplicates\<close> returns the items that stand at the first position of
  their normalized key, in the order of the input, and for every other item its 1-based
  position, the item itself and the 1-based position of the first item with the same
  key. On \<open>["10.1/A", "10.1/a", "10.1/B"]\<close> it returns the unique items
  \<open>["10.1/A", "10.1/B"]\<close> and the duplicates \<open>[(2, "10.1/a", 1)]\<close>.
\<close>

theorem C6_detect_duplicates_first_occurrence:
  "detect_duplicates items = (unique_spec items, duplicates_spec items)
   \<and> detect_duplicates [''10.1/A'', ''10.1/a'', ''10.1/B'']
       = ([''10.1/A'', ''10.1/B''], [(2, ''10.1/a'', 1)])"
proof
  show "detect_duplicates items = (unique_spec items, duplicates_spec items)"
    by (rule detect_duplicates_eq)
  show "detect_duplicates [''10.1/A'', ''10.1/a'', ''10.1/B'']
       = ([''10.1/A'', ''10.1/B''], [(2, ''10.1/a'', 1)])"
    by (simp add: detect_duplicates_def detect_loop_step normalize_examples
        del: detect_loop.simps(2))
qed

lemma validate_batch_spec_input:
  "validate_batch [''10.1/X'', ''bad'', ''10.1/X''] ''doi'' =
     \<lparr> total = 3, valid = 0, invalid = 3,
       invalid_items = [(1, ''10.1/X'', ''Invalid DOI format: 10.1/X''),
                        (2, ''bad'', ''Invalid DOI format: bad''),
                        (3, ''10.1/X'', ''Invalid DOI format: 10.1/X'')],
       unique = 0, duplicates = 0, duplicate_items = [], unique_items = [] \<rparr>"
  by (simp add: validate_batch_def validate_doi_examples detect_duplicates_def)

text \<open>
  Claim C1 as it is worded fails: \<open>"10.1/X"\<close> has one digit after \<open>10.\<close> where
  \<open>DOI_PATTERN\<close> asks for four to nine, so all three lines of the input are invalid,
  nothing is unique and nothing is left to process.
\<close>

theorem C1_scenario_all_invalid:
  "invalid (validate_batch [''10.1/X'', ''bad'', ''10.1/X''] ''doi'') = 3
   \<and> unique (validate_batch [''10.1/X'', ''bad'', ''10.1/X''] ''doi'') = 0
   \<and> duplicate_items (validate_batch [''10.1/X'', ''bad'', ''10.1/X''] ''doi'') = []
   \<and> select_items False (validate_batch [''10.1/X'', ''bad'', ''10.1/X''] ''doi'') = []
   \<and> \<not> (total (validate_batch [''10.1/X'', ''bad'', ''10.1/X''] ''doi'') = 3
        \<and> invalid (validate_batch [''10.1/X'', ''bad'', ''10.1/X''] ''doi'') = 1
        \<and> unique (validate_batch [''10.1/X'', ''bad'', ''10.1/X''] ''doi'') = 1
        \<and> duplicate_items (validate_batch [''10.1/X'', ''bad'', ''10.1/X''] ''doi'')
            = [(3, ''10.1/X'', 1)]
        \<and> select_items False (validate_batch [''10.1/X'', ''bad'', ''10.1/X''] ''doi'')
            = [''10.1/X''])"
  by (simp add: validate_batch_spec_input select_items_def)

lemma validate_batch_wellformed_input:
  "validate_batch [''10.1000/X'', ''bad'', ''10.1000/X''] ''doi'' =
     \<lparr> total = 3, valid = 2, invalid = 1,
       invalid_items = [(2, ''bad'', ''Invalid DOI format: bad'')],
       unique = 1, duplicates = 1, duplicate_items = [(2, ''10.1000/X'', 1)],
       unique_items = [''10.1000/X''] \<rparr>"
  by (simp add: validate_batch_def validate_doi_examples detect_duplicates_def
      detect_loop_step normalize_examples del: detect_loop.simps(2))

text \<open>
  Claim C1, amended. In DOI mode the input \<open>["10.1/X", "bad", "10.1/X"]\<close> gives a
  report with total 3, valid 0, invalid 3 (every line), unique 0 and no duplicate, and
  nothing to process. With a DOI that \<open>DOI_PATTERN\<close> accepts in the place of
  \<open>"10.1/X"\<close>, the input \<open>["10.1000/X", "bad", "10.1000/X"]\<close> gives total 3, valid 2,
  invalid 1 (the item of line 2), unique 1 and one duplicate record, for the second
  \<open>"10.1000/X"\<close>, and the items to process are \<open>["10.1000/X"]\<close>, whatever the
  skip-duplicates flag.
\<close>

theorem C1_scenario_amended:
  "validate_batch [''10.1/X'', ''bad'', ''10.1/X''] ''doi'' =
     \<lparr> total = 3, valid = 0, invalid = 3,
       invalid_items = [(1, ''10.1/X'', ''Invalid DOI format: 10.1/X''),
                        (2, ''bad'', ''Invalid DOI format: bad''),
                        (3, ''10.1/X'', ''Invalid DOI format: 10.1/X'')],
       unique = 0, duplicates = 0, duplicate_items = [], unique_items = [] \<rparr>
   \<and> total (validate_batch [''10.1000/X'', ''bad'', ''10.1000/X''] ''doi'') = 3
   \<and> valid (validate_batch [''10.1000/X'', ''bad'', ''10.1000/X''] ''doi'') = 2
   \<and> invalid (validate_batch [''10.1000/X'', ''bad'', ''10.1000/X''] ''doi'') = 1
   \<and> invalid_items (validate_batch [''10.1000/X'', ''bad'', ''10.1000/X''] ''doi'')
       = [(2, ''bad'', ''Invalid DOI format: bad'')]
   \<and> unique (validate_batch [''10.1000/X'', ''bad'', ''10.1000/X''] ''doi'') = 1
   \<and> duplicates (validate_batch [''10.1000/X'', ''bad'', ''10.1000/X''] ''doi'') = 1
   \<and> map (\<lambda>d. fst (snd d))
         (duplicate_items (validate_batch [''10.1000/X'', ''bad'', ''10.1000/X''] ''doi''))
       = [''10.1000/X'']
   \<and> select_items skip (validate_batch [''10.1000/X'', ''bad'', ''10.1000/X''] ''doi'')
       = [''10.1000/X'']"
  by (simp add: validate_batch_spec_input validate_batch_wellformed_input select_items_def)

lemma unique_items_validate_batch:
  "unique_items (validate_batch items mode) =
     unique_spec (filter (\<lambda>x. fst ((if mode = ''doi'' then validate_doi else validate_title) x))
                    items)"
proof -
  define f where "f = (if mode = ''doi'' then validate_doi else validate_title)"
  obtain v b where vb: "validate_loop f 0 items ([], []) = (v, b)" by force
  have "v = filter (\<lambda>x. fst (f x)) items"
    using validate_loop_valid[of f 0 items "[]" "[]"] vb by simp
  then show ?thesis
    unfolding f_def[symmetric]
    by (simp add: validate_batch_def Let_def f_def[symmetric] vb detect_duplicates_eq)
qed

text \<open>
  Claim C2. Whatever the input and the search mode, the branch taken with the
  skip-duplicates flag and the branch taken without it give the same list of items:
  the items that pass validation, each kept at the first position of its normalized
  key only, so that no two of them have the same normalized key.
\<close>

theorem C2_skip_duplicates_flag_irrelevant:
  "select_items True (validate_batch items mode) = select_items False (validate_batch items mode)
   \<and> select_items skip (validate_batch items mode) =
       unique_spec (filter (\<lambda>x. fst ((if mode = ''doi'' then validate_doi else validate_title) x))
                      items)
   \<and> distinct (map normalize (select_items skip (validate_batch items mode)))"
  by (simp add: select_items_def unique_items_validate_batch distinct_unique_spec)

text \<open>
  Claim C7. The cache reads and writes under the key lower-cased and then trimmed, and
  duplicate detection compares items by the same key: the second of two items is
  reported as a duplicate exactly when their keys are equal. Normalizing twice is
  normalizing once.
\<close>

theorem C7_one_normalization:
  "normalize (normalize s) = normalize s
   \<and> ResultCache_get rc key = cache rc (normalize key)
   \<and> cache (ResultCache_set now rc key v)
       = (cache rc)(normalize key \<mapsto> v\<lparr> cached_at := now \<rparr>)
   \<and> detect_duplicates [a, b]
       = (if normalize a = normalize b then ([a], [(2, b, 1)]) else ([a, b], []))"
  by (simp add: normalize_idem ResultCache_get_def ResultCache_set_def Let_def
      ResultCache_save_cache_def normalize_def[symmetric] detect_duplicates_def
      detect_loop_step del: detect_loop.simps(2))


text \<open>
  Claim C4, amended. Each of the four lookup functions, called with the interrupt flag
  set, raises \<open>KeyboardInterrupt\<close> and changes nothing: no request is counted. Called
  with the flag clear, it returns a result, raises nothing and makes exactly one
  request. The two Scopus functions, on status 429, sleep 5 units, count one failure
  and return an all-null result; on a transport error or any other status than 200
  they count one failure and return an all-null result without sleeping. The two
  OpenAlex functions, on a transport error or any status other than 200 (429 too),
  count one failure and return an all-null result without sleeping.
\<close>

theorem C4_lookup_calls:
  assumes "\<not> interrupt_flag g"
  shows
    "search_scopus_api svc item key (g\<lparr> interrupt_flag := True \<rparr>)
       = (Inl KeyboardInterrupt, g\<lparr> interrupt_flag := True \<rparr>)
     \<and> search_scopus_api_title svc item key (g\<lparr> interrupt_flag := True \<rparr>)
       = (Inl KeyboardInterrupt, g\<lparr> interrupt_flag := True \<rparr>)
     \<and> search_openalex_doi svc item (g\<lparr> interrupt_flag := True \<rparr>)
       = (Inl KeyboardInterrupt, g\<lparr> interrupt_flag := True \<rparr>)
     \<and> search_openalex_title svc item (g\<lparr> interrupt_flag := True \<rparr>)
       = (Inl KeyboardInterrupt, g\<lparr> interrupt_flag := True \<rparr>)
     \<and> (\<exists>r g'. search_scopus_api svc item key g = (Inr r, g')
            \<and> requests_made g' = requests_made g + 1)
     \<and> (\<exists>r g'. search_scopus_api_title svc item key g = (Inr r, g')
            \<and> requests_made g' = requests_made g + 1)
     \<and> (\<exists>r g'. search_openalex_doi svc item g = (Inr r, g')
            \<and> requests_made g' = requests_made g + 1)
     \<and> (\<exists>r g'. search_openalex_title svc item g = (Inr r, g')
            \<and> requests_made g' = requests_made g + 1)
     \<and> ((\<exists>es. scopus_get svc (''DOI('' @ item @ '')'') key None = Response 429 es) \<longrightarrow>
          search_scopus_api svc item key g
            = (Inr (None, None),
               g\<lparr> requests_made := requests_made g + 1, slept := slept g + 5,
                  errors_count := errors_count g + 1 \<rparr>))
     \<and> ((\<exists>es. scopus_get svc (''TITLE('' @ item @ '')'') key (Some 1) = Response 429 es) \<longrightarrow>
          search_scopus_api_title svc item key g
            = (Inr (None, None, None),
               g\<lparr> requests_made := requests_made g + 1, slept := slept g + 5,
                  errors_count := errors_count g + 1 \<rparr>))
     \<and> (scopus_get svc (''DOI('' @ item @ '')'') key None = RequestException
          \<or> (\<exists>st es. scopus_get svc (''DOI('' @ item @ '')'') key None = Response st es
                 \<and> st \<noteq> 200 \<and> st \<noteq> 429) \<longrightarrow>
          search_scopus_api svc item key g
            = (Inr (None, None),
               g\<lparr> requests_made := requests_made g + 1,
                  errors_count := errors_count g + 1 \<rparr>))
     \<and> (scopus_get svc (''TITLE('' @ item @ '')'') key (Some 1) = RequestException
          \<or> (\<exists>st es. scopus_get svc (''TITLE('' @ item @ '')'') key (Some 1) = Response st es
                 \<and> st \<noteq> 200 \<and> st \<noteq> 429) \<longrightarrow>
          search_scopus_api_title svc item key g
            = (Inr (None, None, None),
               g\<lparr> requests_made := requests_made g + 1,
                  errors_count := errors_count g + 1 \<rparr>))
     \<and> (openalex_work_get svc (''https://api.openalex.org/works/https://doi.org/'' @ item)
            = RequestException
          \<or> (\<exists>st b. openalex_work_get svc
                        (''https://api.openalex.org/works/https://doi.org/'' @ item)
                      = Response st b \<and> st \<noteq> 200) \<longrightarrow>
          search_openalex_doi svc item g
            = (Inr None,
               g\<lparr> requests_made := requests_made g + 1,
                  errors_count := errors_count g + 1 \<rparr>))
     \<and> (openalex_search_get svc item 1 = RequestException
          \<or> (\<exists>st ws. openalex_search_get svc item 1 = Response st ws \<and> st \<noteq> 200) \<longrightarrow>
          search_openalex_title svc item g
            = (Inr (None, None),
               g\<lparr> requests_made := requests_made g + 1,
                  errors_count := errors_count g + 1 \<rparr>))"
proof -
  have a: "\<exists>r g'. search_scopus_api svc item key g = (Inr r, g')
            \<and> requests_made g' = requests_made g + 1"
    using search_scopus_api_returns[OF assms, of svc item key] by blast
  have b: "\<exists>r g'. search_scopus_api_title svc item key g = (Inr r, g')
            \<and> requests_made g' = requests_made g + 1"
    using search_scopus_api_title_returns[OF assms, of svc item key] by blast
  have c: "\<exists>r g'. search_openalex_doi svc item g = (Inr r, g')
            \<and> requests_made g' = requests_made g + 1"
    using search_openalex_doi_returns[OF assms, of svc item] by blast
  have d: "\<exists>r g'. search_openalex_title svc item g = (Inr r, g')
            \<and> requests_made g' = requests_made g + 1"
    using search_openalex_title_returns[OF assms, of svc item] by blast
  have e: "(\<exists>es. scopus_get svc (''DOI('' @ item @ '')'') key None = Response 429 es) \<longrightarrow>
          search_scopus_api svc item key g
            = (Inr (None, None),
               g\<lparr> requests_made := requests_made g + 1, slept := slept g + 5,
                  errors_count := errors_count g + 1 \<rparr>)"
    using search_scopus_api_429[OF assms, of svc item key] by blast
  have f: "(\<exists>es. scopus_get svc (''TITLE('' @ item @ '')'') key (Some 1) = Response 429 es) \<longrightarrow>
          search_scopus_api_title svc item key g
            = (Inr (None, None, None),
               g\<lparr> requests_made := requests_made g + 1, slept := slept g + 5,
                  errors_count := errors_count g + 1 \<rparr>)"
    using search_scopus_api_title_429[OF assms, of svc item key] by blast
  show ?thesis
    by (intro conjI impI search_scopus_api_interrupt search_scopus_api_title_interrupt
        search_openalex_doi_interrupt search_openalex_title_interrupt a b c d e[rule_format]
        f[rule_format] search_scopus_api_failure[OF assms]
        search_scopus_api_title_failure[OF assms] search_openalex_doi_failure[OF assms]
        search_openalex_title_failure[OF assms])
qed

theorem C4_lookup_calls_witness:
  "search_scopus_api (services_status 429) ''10.1000/X'' ''k''
       (fresh_globals\<lparr> interrupt_flag := True \<rparr>)
     = (Inl KeyboardInterrupt, fresh_globals\<lparr> interrupt_flag := True \<rparr>)
   \<and> search_scopus_api (services_status 429) ''10.1000/X'' ''k'' fresh_globals
     = (Inr (None, None),
        fresh_globals\<lparr> requests_made := 1, slept := 5, errors_count := 1 \<rparr>)
   \<and> search_scopus_api_title (services_status 429) ''10.1000/X'' ''k'' fresh_globals
     = (Inr (None, None, None),
        fresh_globals\<lparr> requests_made := 1, slept := 5, errors_count := 1 \<rparr>)
   \<and> search_openalex_doi (services_status 429) ''10.1000/X'' fresh_globals
     = (Inr None, fresh_globals\<lparr> requests_made := 1, errors_count := 1 \<rparr>)
   \<and> search_openalex_title (services_status 429) ''10.1000/X'' fresh_globals
     = (Inr (None, None), fresh_globals\<lparr> requests_made := 1, errors_count := 1 \<rparr>)
   \<and> search_scopus_api services_down ''10.1000/X'' ''k'' fresh_globals
     = (Inr (None, None), fresh_globals\<lparr> requests_made := 1, errors_count := 1 \<rparr>)
   \<and> search_scopus_api_title services_down ''10.1000/X'' ''k'' fresh_globals
     = (Inr (None, None, None), fresh_globals\<lparr> requests_made := 1, errors_count := 1 \<rparr>)
   \<and> search_openalex_doi services_down ''10.1000/X'' fresh_globals
     = (Inr None, fresh_globals\<lparr> requests_made := 1, errors_count := 1 \<rparr>)
   \<and> search_openalex_title services_down ''10.1000/X'' fresh_globals
     = (Inr (None, None), fresh_globals\<lparr> requests_made := 1, errors_count := 1 \<rparr>)"
proof -
  have f: "\<not> interrupt_flag fresh_globals" by (simp add: fresh_globals_def)
  show ?thesis
    using C4_lookup_calls[OF f, of "services_status 429" "''10.1000/X''" "''k''"]
      C4_lookup_calls[OF f, of services_down "''10.1000/X''" "''k''"]
    by (simp add: services_status_def services_down_def fresh_globals_def)
qed

text \<open>
  Claim C4 as it is worded fails for the fallback lookups: on status 429 the two
  OpenAlex functions count a failure and do not sleep, where the Scopus function sleeps
  5 units.
\<close>

theorem C4_fallback_429_no_backoff:
  "slept (snd (search_openalex_doi (services_status 429) ''10.1000/X'' fresh_globals)) = 0
   \<and> slept (snd (search_openalex_title (services_status 429) ''10.1000/X'' fresh_globals)) = 0
   \<and> errors_count (snd (search_openalex_doi (services_status 429) ''10.1000/X'' fresh_globals)) = 1
   \<and> slept (snd (search_scopus_api (services_status 429) ''10.1000/X'' ''k'' fresh_globals)) = 5"
  by (simp add: search_openalex_doi_def search_openalex_title_def search_scopus_api_def
      services_status_def fresh_globals_def)

lemma two_dois_valid:
  "unique_items (validate_batch [''10.1000/X'', ''10.1016/j.softx.2019.100263''] ''doi'')
     = [''10.1000/X'', ''10.1016/j.softx.2019.100263'']"
proof -
  have n: "normalize ''10.1016/j.softx.2019.100263'' = ''10.1016/j.softx.2019.100263''"
    by (simp add: normalize_def py_lower_def py_lower_char_def py_strip_def py_isspace_def
        char_of_eq_small)
  show ?thesis
    by (simp add: validate_batch_def validate_doi_examples detect_duplicates_def
        detect_loop_step normalize_examples n del: detect_loop.simps(2))
qed

lemma two_titles_valid:
  "unique_items (validate_batch [''A paper about X'', ''Another paper Y''] ''title'')
     = [''A paper about X'', ''Another paper Y'']"
proof -
  have s: "py_strip ''A paper about X'' = ''A paper about X''"
    "py_strip ''Another paper Y'' = ''Another paper Y''"
    by (simp_all add: py_strip_def py_isspace_def)
  have v: "validate_title ''A paper about X'' = (True, [])"
    "validate_title ''Another paper Y'' = (True, [])"
    by (simp_all add: validate_title_def s MIN_TITLE_LENGTH_def)
  have n: "normalize ''A paper about X'' = ''a paper about x''"
    "normalize ''Another paper Y'' = ''another paper y''"
    by (simp_all add: normalize_def py_lower_def py_lower_char_def py_strip_def py_isspace_def
        char_of_eq_small)
  show ?thesis
    by (simp add: validate_batch_def v detect_duplicates_def detect_loop_step n
        del: detect_loop.simps(2))
qed

text \<open>
  Claim C10. With the interrupt flag clear, a Scopus search by DOI, a Scopus search by
  title and an OpenAlex search by title that get status 200 and no entry each add one
  to the error counter and return an all-null result, and the figure \<open>Errors\<close> of the
  summary is that counter. So the summary of a run counts not-found outcomes as errors:
  take a run of \<open>main\<close> from the start (no limit, no resume, no dry run, the cache
  disabled or empty) with something to process, in which every request is answered with
  status 200. If Scopus has no entry for any query, then in DOI mode the summary reports
  every item as not found and \<open>Errors\<close> has grown by one for each item; and in title
  mode, when OpenAlex has no result either, it reports every item as not found and
  \<open>Errors\<close> has grown by two for each item.
\<close>

theorem C10_not_found_counts_as_error:
  assumes "\<not> interrupt_flag g"
  shows
    "(scopus_get svc (''DOI('' @ item @ '')'') key None = Response 200 [] \<longrightarrow>
        search_scopus_api svc item key g
          = (Inr (None, None),
             g\<lparr> requests_made := requests_made g + 1, errors_count := errors_count g + 1 \<rparr>))
     \<and> (scopus_get svc (''TITLE('' @ item @ '')'') key (Some 1) = Response 200 [] \<longrightarrow>
        search_scopus_api_title svc item key g
          = (Inr (None, None, None),
             g\<lparr> requests_made := requests_made g + 1, errors_count := errors_count g + 1 \<rparr>))
     \<and> (openalex_search_get svc item 1 = Response 200 [] \<longrightarrow>
        search_openalex_title svc item g
          = (Inr (None, None),
             g\<lparr> requests_made := requests_made g + 1, errors_count := errors_count g + 1 \<rparr>))
     \<and> (rs \<noteq> [] \<longrightarrow>
        map_sum id sm_errors (fst (save_final_results rs mode fs g)) = Inr (errors_count g))
     \<and> ((\<forall>q k c. scopus_get svc q k c = Response 200 [])
          \<and> (\<forall>u. \<exists>t. openalex_work_get svc u = Response 200 t)
          \<and> arg_doi a \<and> \<not> arg_title a \<and> arg_limit a = None \<and> \<not> arg_resume a
          \<and> \<not> arg_dry_run a \<and> (arg_no_cache a \<or> cache_json fs = None)
          \<and> unique_items (validate_batch lines ''doi'') \<noteq> [] \<longrightarrow>
        mr_summary (main svc clock a key lines fs g) =
          Some \<lparr> sm_total = length (unique_items (validate_batch lines ''doi'')),
                 sm_found = 0,
                 sm_not_found = length (unique_items (validate_batch lines ''doi'')),
                 sm_api_requests =
                   requests_made g + 2 * length (unique_items (validate_batch lines ''doi'')),
                 sm_cache_hits = cache_hits g,
                 sm_errors =
                   errors_count g + length (unique_items (validate_batch lines ''doi'')) \<rparr>)
     \<and> ((\<forall>q k c. scopus_get svc q k c = Response 200 [])
          \<and> (\<forall>q n. openalex_search_get svc q n = Response 200 [])
          \<and> arg_title a \<and> arg_limit a = None \<and> \<not> arg_resume a
          \<and> \<not> arg_dry_run a \<and> (arg_no_cache a \<or> cache_json fs = None)
          \<and> unique_items (validate_batch lines ''title'') \<noteq> [] \<longrightarrow>
        mr_summary (main svc clock a key lines fs g) =
          Some \<lparr> sm_total = length (unique_items (validate_batch lines ''title'')),
                 sm_found = 0,
                 sm_not_found = length (unique_items (validate_batch lines ''title'')),
                 sm_api_requests =
                   requests_made g + 2 * length (unique_items (validate_batch lines ''title'')),
                 sm_cache_hits = cache_hits g,
                 sm_errors =
                   errors_count g
                   + 2 * length (unique_items (validate_batch lines ''title'')) \<rparr>)"
proof -
  have doi_run: "((\<forall>q k c. scopus_get svc q k c = Response 200 [])
          \<and> (\<forall>u. \<exists>t. openalex_work_get svc u = Response 200 t)
          \<and> arg_doi a \<and> \<not> arg_title a \<and> arg_limit a = None \<and> \<not> arg_resume a
          \<and> \<not> arg_dry_run a \<and> (arg_no_cache a \<or> cache_json fs = None)
          \<and> unique_items (validate_batch lines ''doi'') \<noteq> []) \<longrightarrow>
      mr_summary (main svc clock a key lines fs g) =
          Some \<lparr> sm_total = length (unique_items (validate_batch lines ''doi'')),
                 sm_found = 0,
                 sm_not_found = length (unique_items (validate_batch lines ''doi'')),
                 sm_api_requests =
                   requests_made g + 2 * length (unique_items (validate_batch lines ''doi'')),
                 sm_cache_hits = cache_hits g,
                 sm_errors =
                   errors_count g + length (unique_items (validate_batch lines ''doi'')) \<rparr>"
  proof (rule impI)
    assume h: "(\<forall>q k c. scopus_get svc q k c = Response 200 [])
          \<and> (\<forall>u. \<exists>t. openalex_work_get svc u = Response 200 t)
          \<and> arg_doi a \<and> \<not> arg_title a \<and> arg_limit a = None \<and> \<not> arg_resume a
          \<and> \<not> arg_dry_run a \<and> (arg_no_cache a \<or> cache_json fs = None)
          \<and> unique_items (validate_batch lines ''doi'') \<noteq> []"
    show "mr_summary (main svc clock a key lines fs g) =
          Some \<lparr> sm_total = length (unique_items (validate_batch lines ''doi'')),
                 sm_found = 0,
                 sm_not_found = length (unique_items (validate_batch lines ''doi'')),
                 sm_api_requests =
                   requests_made g + 2 * length (unique_items (validate_batch lines ''doi'')),
                 sm_cache_hits = cache_hits g,
                 sm_errors =
                   errors_count g + length (unique_items (validate_batch lines ''doi'')) \<rparr>"
    proof -
    have md: "''doi'' = (if arg_title a then ''title'' else ''doi'')" using h by simp
    have step: "\<exists>row g'. process_item env n item rc g0 = (Inr row, rc, g')
           \<and> row_scopus_id row = None
           \<and> requests_made g' = requests_made g0 + 2
           \<and> errors_count g' = errors_count g0 + 1
           \<and> cache_hits g' = cache_hits g0 \<and> \<not> interrupt_flag g'"
      if e: "env_services env = svc" "env_search_mode env = ''doi''" "\<not> interrupt_flag g0"
        "env_use_cache env \<longrightarrow> cache rc = Map.empty"
      for env n item rc g0
    proof -
      have a1: "\<And>q k c. scopus_get (env_services env) q k c = Response 200 []"
        using h e(1) by simp
      have a2: "\<And>u. \<exists>t. openalex_work_get (env_services env) u = Response 200 t"
        using h e(1) by simp
      from process_item_doi_nothing[OF e(2) a1 a2 e(3) e(4), of n item]
      obtain t g' where "process_item env n item rc g0 = (Inr (DoiRow item t None), rc, g')"
        "requests_made g' = requests_made g0 + 2" "errors_count g' = errors_count g0 + 1"
        "cache_hits g' = cache_hits g0" "\<not> interrupt_flag g'"
        by blast
      then show ?thesis by simp
    qed
    have p: "arg_doi a \<or> arg_title a" "arg_limit a = None" "\<not> arg_resume a" "\<not> arg_dry_run a"
      "arg_no_cache a \<or> cache_json fs = None"
      "unique_items (validate_batch lines ''doi'') \<noteq> []"
      using h by simp_all
    have "mr_summary (main svc clock a key lines fs g) =
          Some \<lparr> sm_total = length (unique_items (validate_batch lines ''doi'')),
                 sm_found = 0,
                 sm_not_found = length (unique_items (validate_batch lines ''doi'')),
                 sm_api_requests =
                   requests_made g + 2 * length (unique_items (validate_batch lines ''doi'')),
                 sm_cache_hits = cache_hits g,
                 sm_errors =
                   errors_count g + 1 * length (unique_items (validate_batch lines ''doi'')) \<rparr>"
      by (rule main_summary_nothing_found[where e=1 and mode="''doi''", OF p(1-4) md _ assms p(5,6)])
        (rule step)
    then show ?thesis by (simp only: mult_1)
    qed
  qed
  have title_run: "((\<forall>q k c. scopus_get svc q k c = Response 200 [])
          \<and> (\<forall>q n. openalex_search_get svc q n = Response 200 [])
          \<and> arg_title a \<and> arg_limit a = None \<and> \<not> arg_resume a
          \<and> \<not> arg_dry_run a \<and> (arg_no_cache a \<or> cache_json fs = None)
          \<and> unique_items (validate_batch lines ''title'') \<noteq> []) \<longrightarrow>
      mr_summary (main svc clock a key lines fs g) =
          Some \<lparr> sm_total = length (unique_items (validate_batch lines ''title'')),
                 sm_found = 0,
                 sm_not_found = length (unique_items (validate_batch lines ''title'')),
                 sm_api_requests =
                   requests_made g + 2 * length (unique_items (validate_batch lines ''title'')),
                 sm_cache_hits = cache_hits g,
                 sm_errors =
                   errors_count g
                   + 2 * length (unique_items (validate_batch lines ''title'')) \<rparr>"
  proof (rule impI)
    assume h: "(\<forall>q k c. scopus_get svc q k c = Response 200 [])
          \<and> (\<forall>q n. openalex_search_get svc q n = Response 200 [])
          \<and> arg_title a \<and> arg_limit a = None \<and> \<not> arg_resume a
          \<and> \<not> arg_dry_run a \<and> (arg_no_cache a \<or> cache_json fs = None)
          \<and> unique_items (validate_batch lines ''title'') \<noteq> []"
    show "mr_summary (main svc clock a key lines fs g) =
          Some \<lparr> sm_total = length (unique_items (validate_batch lines ''title'')),
                 sm_found = 0,
                 sm_not_found = length (unique_items (validate_batch lines ''title'')),
                 sm_api_requests =
                   requests_made g + 2 * length (unique_items (validate_batch lines ''title'')),
                 sm_cache_hits = cache_hits g,
                 sm_errors =
                   errors_count g
                   + 2 * length (unique_items (validate_batch lines ''title'')) \<rparr>"
    proof -
    have md: "''title'' = (if arg_title a then ''title'' else ''doi'')" using h by simp
    have step: "\<exists>row g'. process_item env n item rc g0 = (Inr row, rc, g')
           \<and> row_scopus_id row = None
           \<and> requests_made g' = requests_made g0 + 2
           \<and> errors_count g' = errors_count g0 + 2
           \<and> cache_hits g' = cache_hits g0 \<and> \<not> interrupt_flag g'"
      if e: "env_services env = svc" "env_search_mode env = ''title''" "\<not> interrupt_flag g0"
        "env_use_cache env \<longrightarrow> cache rc = Map.empty"
      for env n item rc g0
    proof -
      have a0: "env_search_mode env \<noteq> ''doi''" using e(2) by simp
      have a1: "\<And>q k c. scopus_get (env_services env) q k c = Response 200 []"
        using h e(1) by simp
      have a2: "\<And>q n. openalex_search_get (env_services env) q n = Response 200 []"
        using h e(1) by simp
      from process_item_title_nothing[OF a0 a1 a2 e(3) e(4), of n item]
      obtain g' where "process_item env n item rc g0 = (Inr (TitleRow item None None None), rc, g')"
        "requests_made g' = requests_made g0 + 2" "errors_count g' = errors_count g0 + 2"
        "cache_hits g' = cache_hits g0" "\<not> interrupt_flag g'"
        by blast
      then show ?thesis by simp
    qed
    have p: "arg_doi a \<or> arg_title a" "arg_limit a = None" "\<not> arg_resume a" "\<not> arg_dry_run a"
      "arg_no_cache a \<or> cache_json fs = None"
      "unique_items (validate_batch lines ''title'') \<noteq> []"
      using h by simp_all
    show ?thesis
      by (rule main_summary_nothing_found[where e=2 and mode="''title''", OF p(1-4) md _ assms p(5,6)])
        (rule step)
    qed
  qed
  show ?thesis
    by (intro conjI doi_run title_run;
        intro impI search_scopus_api_empty[OF assms] search_scopus_api_title_empty[OF assms]
          search_openalex_title_empty[OF assms] save_final_results_errors)
qed

theorem C10_not_found_counts_as_error_witness:
  "search_scopus_api (services_status 200) ''10.1000/X'' ''k'' fresh_globals
     = (Inr (None, None), fresh_globals\<lparr> requests_made := 1, errors_count := 1 \<rparr>)
   \<and> search_scopus_api_title (services_status 200) ''10.1000/X'' ''k'' fresh_globals
     = (Inr (None, None, None), fresh_globals\<lparr> requests_made := 1, errors_count := 1 \<rparr>)
   \<and> search_openalex_title (services_status 200) ''10.1000/X'' fresh_globals
     = (Inr (None, None), fresh_globals\<lparr> requests_made := 1, errors_count := 1 \<rparr>)
   \<and> mr_summary (main (services_status 200) (\<lambda>n. ''t0'') (run_args False) ''k''
         [''10.1000/X'', ''10.1016/j.softx.2019.100263''] no_files fresh_globals)
     = Some \<lparr> sm_total = 2, sm_found = 0, sm_not_found = 2, sm_api_requests = 4,
              sm_cache_hits = 0, sm_errors = 2 \<rparr>
   \<and> mr_summary (main (services_status 200) (\<lambda>n. ''t0'') (run_args True) ''k''
         [''A paper about X'', ''Another paper Y''] no_files fresh_globals)
     = Some \<lparr> sm_total = 2, sm_found = 0, sm_not_found = 2, sm_api_requests = 4,
              sm_cache_hits = 0, sm_errors = 4 \<rparr>"
proof -
  have f: "\<not> interrupt_flag fresh_globals" by (simp add: fresh_globals_def)
  show ?thesis
    using C10_not_found_counts_as_error[OF f, of "services_status 200" "''10.1000/X''" "''k''"
        "[DoiRow ''10.1000/X'' None None]" "''doi''" no_files "run_args False"
        "[''10.1000/X'', ''10.1016/j.softx.2019.100263'']" "\<lambda>n. ''t0''"]
      C10_not_found_counts_as_error[OF f, of "services_status 200" "''10.1000/X''" "''k''"
        "[DoiRow ''10.1000/X'' None None]" "''doi''" no_files "run_args True"
        "[''A paper about X'', ''Another paper Y'']" "\<lambda>n. ''t0''"]
    by (simp add: services_status_def fresh_globals_def run_args_def no_files_def
        two_dois_valid two_titles_valid)
qed












end
